theory Spec2Isabelle
  imports Main
begin

section \<open>The data model of survey.go\<close>

text \<open>
  A Go \<^verbatim>\<open>error\<close> value is either one made by \<^verbatim>\<open>errors.New\<close> (it carries its message)
  or any other value implementing the interface; the nil error is \<open>None\<close> of
  \<open>'x error option\<close>. A value of type \<^verbatim>\<open>interface{}\<close> is a value of \<open>'v\<close>; the
  destination \<^verbatim>\<open>t\<close> is \<open>None\<close> when it is the nil interface and \<open>Some r\<close> otherwise.
\<close>

datatype 'x error = ErrorString string | OtherError 'x

definition errors_New :: "string \<Rightarrow> 'x error" where
  "errors_New msg = ErrorString msg"

text \<open>
  The functions a caller passes in are Go closures and interface methods: they read the
  terminal and may keep state. Each one is a function of the world \<open>'w\<close> (everything
  outside \<^verbatim>\<open>Ask\<close> that they can see or change) that returns its Go results and the
  world it leaves behind.
\<close>

type_synonym ('v, 'x, 'w) Validator = "'v \<Rightarrow> 'w \<Rightarrow> 'x error option \<times> 'w"

type_synonym ('v, 'x, 'w) Converter = "'v \<Rightarrow> 'w \<Rightarrow> ('v \<times> 'x error option) \<times> 'w"

text \<open>The interface \<^verbatim>\<open>Prompt\<close>: its three methods.\<close>

record ('v, 'x, 'w) Prompt =
  Prompt_Prompt :: "'w \<Rightarrow> ('v \<times> 'x error option) \<times> 'w"
  Prompt_Cleanup :: "'v \<Rightarrow> 'w \<Rightarrow> 'x error option \<times> 'w"
  Prompt_Error :: "'x error \<Rightarrow> 'w \<Rightarrow> 'x error option \<times> 'w"

text \<open>
  The struct \<^verbatim>\<open>Question\<close>. An interface or function field that is nil is \<open>None\<close>.
\<close>

record ('v, 'x, 'w) Question =
  Name :: string
  Prompt :: "('v, 'x, 'w) Prompt option"
  Validate :: "('v, 'x, 'w) Validator option"
  Convert :: "('v, 'x, 'w) Converter option"

text \<open>
  \<^verbatim>\<open>core.WriteAnswer(t, name, value)\<close> lives in another package; it is a parameter of
  the model, a function of the world like the other collaborators (the destination
  behind \<^verbatim>\<open>t\<close> is part of the world).
\<close>

type_synonym ('t, 'v, 'x, 'w) WriteAnswer = "'t \<Rightarrow> string \<Rightarrow> 'v \<Rightarrow> 'w \<Rightarrow> 'x error option \<times> 'w"

section \<open>The calls \<^verbatim>\<open>Ask\<close> makes\<close>

text \<open>
  Every call \<^verbatim>\<open>Ask\<close> makes to a collaborator is logged with its arguments and its
  results, in the order the calls are made. The state threaded through the model is the
  world together with this log.
\<close>

datatype ('t, 'v, 'x) call =
    PromptCall 'v "'x error option"
  | ConvertCall 'v 'v "'x error option"
  | ValidateCall 'v "'x error option"
  | ErrorCall "'x error" "'x error option"
  | CleanupCall 'v "'x error option"
  | WriteAnswerCall 't string 'v "'x error option"

record ('t, 'v, 'x, 'w) state =
  world :: 'w
  calls :: "('t, 'v, 'x) call list"

definition call_Prompt ::
  "('v, 'x, 'w) Prompt \<Rightarrow> ('t, 'v, 'x, 'w) state \<Rightarrow> ('v \<times> 'x error option) \<times> ('t, 'v, 'x, 'w) state" where
  "call_Prompt p s =
     (case Prompt_Prompt p (world s) of
        ((ans, err), w) \<Rightarrow> ((ans, err), \<lparr>world = w, calls = calls s @ [PromptCall ans err]\<rparr>))"

definition call_Cleanup ::
  "('v, 'x, 'w) Prompt \<Rightarrow> 'v \<Rightarrow> ('t, 'v, 'x, 'w) state \<Rightarrow> 'x error option \<times> ('t, 'v, 'x, 'w) state" where
  "call_Cleanup p ans s =
     (case Prompt_Cleanup p ans (world s) of
        (err, w) \<Rightarrow> (err, \<lparr>world = w, calls = calls s @ [CleanupCall ans err]\<rparr>))"

definition call_Error ::
  "('v, 'x, 'w) Prompt \<Rightarrow> 'x error \<Rightarrow> ('t, 'v, 'x, 'w) state \<Rightarrow> 'x error option \<times> ('t, 'v, 'x, 'w) state" where
  "call_Error p invalid s =
     (case Prompt_Error p invalid (world s) of
        (err, w) \<Rightarrow> (err, \<lparr>world = w, calls = calls s @ [ErrorCall invalid err]\<rparr>))"

definition call_Convert ::
  "('v, 'x, 'w) Converter \<Rightarrow> 'v \<Rightarrow> ('t, 'v, 'x, 'w) state \<Rightarrow> ('v \<times> 'x error option) \<times> ('t, 'v, 'x, 'w) state" where
  "call_Convert c ans s =
     (case c ans (world s) of
        ((convertedAns, invalid), w) \<Rightarrow>
          ((convertedAns, invalid), \<lparr>world = w, calls = calls s @ [ConvertCall ans convertedAns invalid]\<rparr>))"

definition call_Validate ::
  "('v, 'x, 'w) Validator \<Rightarrow> 'v \<Rightarrow> ('t, 'v, 'x, 'w) state \<Rightarrow> 'x error option \<times> ('t, 'v, 'x, 'w) state" where
  "call_Validate v convertedAns s =
     (case v convertedAns (world s) of
        (invalid, w) \<Rightarrow> (invalid, \<lparr>world = w, calls = calls s @ [ValidateCall convertedAns invalid]\<rparr>))"

definition call_WriteAnswer ::
  "('t, 'v, 'x, 'w) WriteAnswer \<Rightarrow> 't \<Rightarrow> string \<Rightarrow> 'v \<Rightarrow> ('t, 'v, 'x, 'w) state
     \<Rightarrow> 'x error option \<times> ('t, 'v, 'x, 'w) state" where
  "call_WriteAnswer WriteAnswer t name convertedAns s =
     (case WriteAnswer t name convertedAns (world s) of
        (err, w) \<Rightarrow> (err, \<lparr>world = w, calls = calls s @ [WriteAnswerCall t name convertedAns err]\<rparr>))"

section \<open>Control flow\<close>

text \<open>
  How a call of \<^verbatim>\<open>Ask\<close> or \<^verbatim>\<open>AskOne\<close> ends: it returns its \<^verbatim>\<open>error\<close> result, it
  panics (a nil \<^verbatim>\<open>*Question\<close> or a nil \<^verbatim>\<open>Prompt\<close> is dereferenced), or the model
  has used up the number of iterations it was given for one of the two retry loops,
  which have no bound in the source.
\<close>

datatype 'x outcome = Returned "'x error option" | Panicked | OutOfFuel

text \<open>
  A piece of the body of \<^verbatim>\<open>Ask\<close> either falls through to the statement after it with
  the values of its variables, or leaves the function.
\<close>

datatype ('a, 'x) flow = Next 'a | Exit "'x outcome"

fun and_then ::
  "('a, 'x) flow \<times> 's \<Rightarrow> ('a \<Rightarrow> 's \<Rightarrow> ('b, 'x) flow \<times> 's) \<Rightarrow> ('b, 'x) flow \<times> 's" where
  "and_then (Next a, s) f = f a s"
| "and_then (Exit out, s) f = (Exit out, s)"

section \<open>\<^verbatim>\<open>Ask\<close> and \<^verbatim>\<open>AskOne\<close>\<close>

text \<open>
  Lines 65 to 78, the loop
  \<^verbatim>\<open>for convertedAns, invalid = q.Convert(ans); invalid != nil; convertedAns, invalid = q.Convert(ans)\<close>.
  The first argument bounds the number of times \<^verbatim>\<open>q.Convert\<close> is called. The loop
  falls through with the variables \<^verbatim>\<open>ans\<close> and \<^verbatim>\<open>convertedAns\<close>.
\<close>

fun convert_loop ::
  "nat \<Rightarrow> ('v, 'x, 'w) Prompt \<Rightarrow> ('v, 'x, 'w) Converter \<Rightarrow> 'v \<Rightarrow> ('t, 'v, 'x, 'w) state
     \<Rightarrow> ('v \<times> 'v, 'x) flow \<times> ('t, 'v, 'x, 'w) state" where
  "convert_loop 0 p c ans s = (Exit OutOfFuel, s)"
| "convert_loop (Suc n) p c ans s =
     (case call_Convert c ans s of
        ((convertedAns, None), s1) \<Rightarrow> (Next (ans, convertedAns), s1)
      | ((convertedAns, Some invalid), s1) \<Rightarrow>
          (case call_Error p invalid s1 of
             (Some err, s2) \<Rightarrow> (Exit (Returned (Some err)), s2)
           | (None, s2) \<Rightarrow>
               (case call_Prompt p s2 of
                  ((ans', Some err), s3) \<Rightarrow> (Exit (Returned (Some err)), s3)
                | ((ans', None), s3) \<Rightarrow> convert_loop n p c ans' s3)))"

text \<open>
  Lines 84 to 97, the loop
  \<^verbatim>\<open>for invalid := q.Validate(convertedAns); invalid != nil; invalid = q.Validate(convertedAns)\<close>.
  The first argument bounds the number of times \<^verbatim>\<open>q.Validate\<close> is called. The loop
  assigns \<^verbatim>\<open>ans\<close> only, and falls through with it.
\<close>

fun validate_loop ::
  "nat \<Rightarrow> ('v, 'x, 'w) Prompt \<Rightarrow> ('v, 'x, 'w) Validator \<Rightarrow> 'v \<Rightarrow> 'v \<Rightarrow> ('t, 'v, 'x, 'w) state
     \<Rightarrow> ('v, 'x) flow \<times> ('t, 'v, 'x, 'w) state" where
  "validate_loop 0 p v ans convertedAns s = (Exit OutOfFuel, s)"
| "validate_loop (Suc n) p v ans convertedAns s =
     (case call_Validate v convertedAns s of
        (None, s1) \<Rightarrow> (Next ans, s1)
      | (Some invalid, s1) \<Rightarrow>
          (case call_Error p invalid s1 of
             (Some err, s2) \<Rightarrow> (Exit (Returned (Some err)), s2)
           | (None, s2) \<Rightarrow>
               (case call_Prompt p s2 of
                  ((ans', Some err), s3) \<Rightarrow> (Exit (Returned (Some err)), s3)
                | ((ans', None), s3) \<Rightarrow> validate_loop n p v ans' convertedAns s3)))"

text \<open>
  Lines 61 to 79, the statement \<^verbatim>\<open>if q.Convert != nil { ... }\<close>. Before it
  \<^verbatim>\<open>convertedAns\<close> holds \<^verbatim>\<open>ans\<close> (line 54).
\<close>

definition convert_phase ::
  "nat \<Rightarrow> ('v, 'x, 'w) Prompt \<Rightarrow> ('v, 'x, 'w) Question \<Rightarrow> 'v \<Rightarrow> ('t, 'v, 'x, 'w) state
     \<Rightarrow> ('v \<times> 'v, 'x) flow \<times> ('t, 'v, 'x, 'w) state" where
  "convert_phase n p q ans s =
     (case Convert q of
        None \<Rightarrow> (Next (ans, ans), s)
      | Some c \<Rightarrow> convert_loop n p c ans s)"

text \<open>Lines 82 to 98, the statement \<^verbatim>\<open>if q.Validate != nil { ... }\<close>.\<close>

definition validate_phase ::
  "nat \<Rightarrow> ('v, 'x, 'w) Prompt \<Rightarrow> ('v, 'x, 'w) Question \<Rightarrow> 'v \<Rightarrow> 'v \<Rightarrow> ('t, 'v, 'x, 'w) state
     \<Rightarrow> ('v, 'x) flow \<times> ('t, 'v, 'x, 'w) state" where
  "validate_phase n p q ans convertedAns s =
     (case Validate q of
        None \<Rightarrow> (Next ans, s)
      | Some v \<Rightarrow> validate_loop n p v ans convertedAns s)"

text \<open>
  Lines 100 to 114: \<^verbatim>\<open>Cleanup\<close>, whose result is dropped, the test of \<^verbatim>\<open>err\<close> and
  \<^verbatim>\<open>core.WriteAnswer\<close>. The variable \<open>err\<close> is the one declared at line 53: the
  \<^verbatim>\<open>err\<close> of the two loop bodies is declared there with \<^verbatim>\<open>:=\<close> and hides it, so
  the test of line 104 reads the error of the first \<^verbatim>\<open>Prompt()\<close>.
\<close>

definition cleanup_and_write ::
  "('t, 'v, 'x, 'w) WriteAnswer \<Rightarrow> 't \<Rightarrow> ('v, 'x, 'w) Prompt \<Rightarrow> ('v, 'x, 'w) Question
     \<Rightarrow> 'x error option \<Rightarrow> 'v \<Rightarrow> 'v \<Rightarrow> ('t, 'v, 'x, 'w) state
     \<Rightarrow> (unit, 'x) flow \<times> ('t, 'v, 'x, 'w) state" where
  "cleanup_and_write WriteAnswer t p q err ans convertedAns s =
     (case call_Cleanup p ans s of
        (_, s1) \<Rightarrow>
          if err \<noteq> None then (Exit (Returned err), s1)
          else
            (case call_WriteAnswer WriteAnswer t (Name q) convertedAns s1 of
               (Some err, s2) \<Rightarrow> (Exit (Returned (Some err)), s2)
             | (None, s2) \<Rightarrow> (Next (), s2)))"

text \<open>
  Lines 52 to 114, the body of \<^verbatim>\<open>for _, q := range qs\<close> for one element of the
  slice (\<open>None\<close> is the nil pointer): line 53 dereferences \<^verbatim>\<open>q\<close> and calls a method
  of \<^verbatim>\<open>q.Prompt\<close>.
\<close>

definition ask_question ::
  "nat \<Rightarrow> ('t, 'v, 'x, 'w) WriteAnswer \<Rightarrow> 't \<Rightarrow> ('v, 'x, 'w) Question option \<Rightarrow> ('t, 'v, 'x, 'w) state
     \<Rightarrow> (unit, 'x) flow \<times> ('t, 'v, 'x, 'w) state" where
  "ask_question n WriteAnswer t qp s =
     (case qp of
        None \<Rightarrow> (Exit Panicked, s)
      | Some q \<Rightarrow>
          (case Prompt q of
             None \<Rightarrow> (Exit Panicked, s)
           | Some p \<Rightarrow>
               (case call_Prompt p s of
                  ((ans, err), s1) \<Rightarrow>
                    if err \<noteq> None then (Exit (Returned err), s1)
                    else
                      and_then (convert_phase n p q ans s1)
                        (\<lambda>(ans, convertedAns) s2.
                           and_then (validate_phase n p q ans convertedAns s2)
                             (\<lambda>ans s3. cleanup_and_write WriteAnswer t p q err ans convertedAns s3)))))"

text \<open>Lines 51 to 116, the loop over the slice.\<close>

fun ask_loop ::
  "nat \<Rightarrow> ('t, 'v, 'x, 'w) WriteAnswer \<Rightarrow> 't \<Rightarrow> ('v, 'x, 'w) Question option list \<Rightarrow> ('t, 'v, 'x, 'w) state
     \<Rightarrow> (unit, 'x) flow \<times> ('t, 'v, 'x, 'w) state" where
  "ask_loop n WriteAnswer t [] s = (Next (), s)"
| "ask_loop n WriteAnswer t (q # qs) s =
     and_then (ask_question n WriteAnswer t q s) (\<lambda>_ s'. ask_loop n WriteAnswer t qs s')"

text \<open>\<^verbatim>\<open>Ask\<close>, lines 42 to 119.\<close>

definition Ask ::
  "nat \<Rightarrow> ('t, 'v, 'x, 'w) WriteAnswer \<Rightarrow> ('v, 'x, 'w) Question option list \<Rightarrow> 't option
     \<Rightarrow> ('t, 'v, 'x, 'w) state \<Rightarrow> 'x outcome \<times> ('t, 'v, 'x, 'w) state" where
  "Ask n WriteAnswer qs t s =
     (case t of
        None \<Rightarrow> (Returned (Some (errors_New ''cannot call Ask() with a nil reference to record the answers'')), s)
      | Some r \<Rightarrow>
          (case ask_loop n WriteAnswer r qs s of
             (Next _, s') \<Rightarrow> (Returned None, s')
           | (Exit out, s') \<Rightarrow> (out, s')))"

text \<open>
  \<^verbatim>\<open>AskOne\<close>, lines 32 to 39. The composite literal leaves \<^verbatim>\<open>Name\<close> at its zero
  value, the empty string.
\<close>

definition AskOne ::
  "nat \<Rightarrow> ('t, 'v, 'x, 'w) WriteAnswer \<Rightarrow> ('v, 'x, 'w) Prompt option \<Rightarrow> 't option
     \<Rightarrow> ('v, 'x, 'w) Validator option \<Rightarrow> ('v, 'x, 'w) Converter option
     \<Rightarrow> ('t, 'v, 'x, 'w) state \<Rightarrow> 'x outcome \<times> ('t, 'v, 'x, 'w) state" where
  "AskOne n WriteAnswer p t v c s =
     (case Ask n WriteAnswer [Some \<lparr>Name = [], Prompt = p, Validate = v, Convert = c\<rparr>] t s of
        (Returned err, s') \<Rightarrow> if err \<noteq> None then (Returned err, s') else (Returned None, s')
      | (out, s') \<Rightarrow> (out, s'))"

section \<open>Reading the log\<close>

definition made :: "('t, 'v, 'x, 'w) state \<Rightarrow> ('t, 'v, 'x, 'w) state \<Rightarrow> ('t, 'v, 'x) call list" where
  "made s s' = drop (length (calls s)) (calls s')"

fun failed :: "('t, 'v, 'x) call \<Rightarrow> 'x error option" where
  "failed (PromptCall _ err) = err"
| "failed (ErrorCall _ err) = err"
| "failed (WriteAnswerCall _ _ _ err) = err"
| "failed _ = None"

fun is_WriteAnswerCall :: "('t, 'v, 'x) call \<Rightarrow> bool" where
  "is_WriteAnswerCall (WriteAnswerCall _ _ _ _) = True"
| "is_WriteAnswerCall _ = False"

fun is_CleanupCall :: "('t, 'v, 'x) call \<Rightarrow> bool" where
  "is_CleanupCall (CleanupCall _ _) = True"
| "is_CleanupCall _ = False"

fun is_PromptCall :: "('t, 'v, 'x) call \<Rightarrow> bool" where
  "is_PromptCall (PromptCall _ _) = True"
| "is_PromptCall _ = False"

fun is_ErrorCall :: "('t, 'v, 'x) call \<Rightarrow> bool" where
  "is_ErrorCall (ErrorCall _ _) = True"
| "is_ErrorCall _ = False"

fun is_ConvertCall :: "('t, 'v, 'x) call \<Rightarrow> bool" where
  "is_ConvertCall (ConvertCall _ _ _) = True"
| "is_ConvertCall _ = False"

text \<open>The shape of the log of a piece of code that ends with r\<close>

definition ends_as :: "('a, 'x) flow \<Rightarrow> ('t, 'v, 'x) call list \<Rightarrow> bool" where
  "ends_as r evs =
     (case r of
        Exit (Returned (Some e)) \<Rightarrow>
          (\<exists>evs' c. evs = evs' @ [c] \<and> (\<forall>c' \<in> set evs'. failed c' = None) \<and> failed c = Some e)
      | Exit (Returned None) \<Rightarrow> False
      | _ \<Rightarrow> (\<forall>c \<in> set evs. failed c = None))"

fun last_raw :: "'v option \<Rightarrow> ('t, 'v, 'x) call list \<Rightarrow> 'v option" where
  "last_raw a [] = a"
| "last_raw a (PromptCall x _ # cs) = last_raw (Some x) cs"
| "last_raw a (_ # cs) = last_raw a cs"

fun convert_loop_call :: "('t, 'v, 'x) call \<Rightarrow> bool" where
  "convert_loop_call (ConvertCall _ _ _) = True"
| "convert_loop_call (ErrorCall _ _) = True"
| "convert_loop_call (PromptCall _ _) = True"
| "convert_loop_call _ = False"

fun validate_loop_call :: "'v \<Rightarrow> ('t, 'v, 'x) call \<Rightarrow> bool" where
  "validate_loop_call cv (ValidateCall x _) = (x = cv)"
| "validate_loop_call cv (ErrorCall _ _) = True"
| "validate_loop_call cv (PromptCall _ _) = True"
| "validate_loop_call cv _ = False"

definition flow_of_write :: "'x error option \<Rightarrow> (unit, 'x) flow" where
  "flow_of_write rw = (case rw of None \<Rightarrow> Next () | Some err \<Rightarrow> Exit (Returned (Some err)))"


section \<open>Collaborators for the examples\<close>

text \<open>
  A world for the examples: the number of answers the user has typed so far. The
  prompt returns that number as the raw answer.
\<close>

definition counting_prompt :: "(nat, unit, nat) Prompt" where
  "counting_prompt =
     \<lparr>Prompt_Prompt = (\<lambda>w. ((w, None), Suc w)),
      Prompt_Cleanup = (\<lambda>a w. (None, w)),
      Prompt_Error = (\<lambda>e w. (None, w))\<rparr>"

text \<open>A prompt whose \<^verbatim>\<open>Prompt()\<close> fails, as when the user interrupts it.\<close>

definition interrupted_prompt :: "(nat, unit, nat) Prompt" where
  "interrupted_prompt =
     \<lparr>Prompt_Prompt = (\<lambda>w. ((0, Some (errors_New ''interrupt'')), w)),
      Prompt_Cleanup = (\<lambda>a w. (None, w)),
      Prompt_Error = (\<lambda>e w. (None, w))\<rparr>"

text \<open>A destination that takes every answer.\<close>

definition write_ok :: "(unit, nat, unit, nat) WriteAnswer" where
  "write_ok t name v w = (None, w)"

definition start :: "(unit, nat, unit, nat) state" where
  "start = \<lparr>world = 0, calls = []\<rparr>"

definition plain_question :: "string \<Rightarrow> (nat, unit, nat) Question option" where
  "plain_question name = Some \<lparr>Name = name, Prompt = Some counting_prompt, Validate = None, Convert = None\<rparr>"

definition interrupted_question :: "string \<Rightarrow> (nat, unit, nat) Question option" where
  "interrupted_question name =
     Some \<lparr>Name = name, Prompt = Some interrupted_prompt, Validate = None, Convert = None\<rparr>"

section \<open>Every call succeeds at once\<close>






text \<open>
  A validator that reads the world: it rejects every value until the user has typed a
  second answer. A converter that adds ten. A question with both.
\<close>

definition until_second_answer :: "(nat, unit, nat) Validator" where
  "until_second_answer x w = (if w < 2 then Some (errors_New ''invalid'') else None, w)"

definition add_ten :: "(nat, unit, nat) Converter" where
  "add_ten a w = ((a + 10, None), w)"

definition second_thoughts_question :: "string \<Rightarrow> (nat, unit, nat) Question option" where
  "second_thoughts_question name =
     Some \<lparr>Name = name, Prompt = Some counting_prompt,
           Validate = Some until_second_answer, Convert = Some add_ten\<rparr>"



text \<open>
  A converter that rejects the answers 0 and 1 and adds ten to the others, and a question
  with it and no validator.
\<close>

definition from_two_on :: "(nat, unit, nat) Converter" where
  "from_two_on a w = (if a < 2 then ((0, Some (errors_New ''not a number'')), w) else ((a + 10, None), w))"

definition digits_question :: "string \<Rightarrow> (nat, unit, nat) Question option" where
  "digits_question name =
     Some \<lparr>Name = name, Prompt = Some counting_prompt, Validate = None, Convert = Some from_two_on\<rparr>"

section \<open>What is passed to the validator and to the destination\<close>

text \<open>The name a \<^verbatim>\<open>WriteAnswer\<close> call binds under.\<close>

fun write_name :: "('t, 'v, 'x) call \<Rightarrow> string option" where
  "write_name (WriteAnswerCall _ name _ _) = Some name"
| "write_name _ = None"

text \<open>The value a call hands to \<^verbatim>\<open>Validate\<close> or to \<^verbatim>\<open>WriteAnswer\<close>.\<close>

fun value_used :: "('t, 'v, 'x) call \<Rightarrow> 'v option" where
  "value_used (ValidateCall x _) = Some x"
| "value_used (WriteAnswerCall _ _ x _) = Some x"
| "value_used _ = None"

fun is_ValidateCall :: "('t, 'v, 'x) call \<Rightarrow> bool" where
  "is_ValidateCall (ValidateCall _ _) = True"
| "is_ValidateCall _ = False"

text \<open>A question with the validator above and no converter.\<close>

definition hesitant_question :: "string \<Rightarrow> (nat, unit, nat) Question option" where
  "hesitant_question name =
     Some \<lparr>Name = name, Prompt = Some counting_prompt,
           Validate = Some until_second_answer, Convert = None\<rparr>"

section \<open>A prompt whose \<^verbatim>\<open>Cleanup\<close> returns another error\<close>

text \<open>
  The prompt \<open>p\<close> with \<^verbatim>\<open>Cleanup\<close> returning the error \<open>f x w\<close> in place of its own, and
  doing the same to the world.
\<close>

definition cleanup_returning ::
  "('v \<Rightarrow> 'w \<Rightarrow> 'x error option) \<Rightarrow> ('v, 'x, 'w) Prompt \<Rightarrow> ('v, 'x, 'w) Prompt" where
  "cleanup_returning f p = p\<lparr>Prompt_Cleanup := (\<lambda>x w. (f x w, snd (Prompt_Cleanup p x w)))\<rparr>"

section \<open>A validator that never accepts\<close>

text \<open>A pure validator that rejects every value, and a question with it and no converter.\<close>

definition never_valid :: "(nat, unit, nat) Validator" where
  "never_valid x w = (Some (errors_New ''invalid''), w)"

definition stubborn_question :: "string \<Rightarrow> (nat, unit, nat) Question option" where
  "stubborn_question name =
     Some \<lparr>Name = name, Prompt = Some counting_prompt, Validate = Some never_valid, Convert = None\<rparr>"

section \<open>A validator that rejects after the conversion retries\<close>

text \<open>
  A validator that reads the world, rejecting every value until the user has typed a
  fourth answer, and a question with it and the converter that rejects 0 and 1.
\<close>

definition until_fourth_answer :: "(nat, unit, nat) Validator" where
  "until_fourth_answer x w = (if w < 4 then Some (errors_New ''invalid'') else None, w)"

definition fussy_question :: "string \<Rightarrow> (nat, unit, nat) Question option" where
  "fussy_question name =
     Some \<lparr>Name = name, Prompt = Some counting_prompt,
           Validate = Some until_fourth_answer, Convert = Some from_two_on\<rparr>"
section \<open>What each piece of the body does to the log\<close>

lemma call_Prompt_eq:
  "Prompt_Prompt p (world s) = ((a, e), w) \<Longrightarrow>
   call_Prompt p s = ((a, e), \<lparr>world = w, calls = calls s @ [PromptCall a e]\<rparr>)"
  by (simp add: call_Prompt_def)

lemma call_Cleanup_eq:
  "Prompt_Cleanup p a (world s) = (e, w) \<Longrightarrow>
   call_Cleanup p a s = (e, \<lparr>world = w, calls = calls s @ [CleanupCall a e]\<rparr>)"
  by (simp add: call_Cleanup_def)

lemma call_Error_eq:
  "Prompt_Error p i (world s) = (e, w) \<Longrightarrow>
   call_Error p i s = (e, \<lparr>world = w, calls = calls s @ [ErrorCall i e]\<rparr>)"
  by (simp add: call_Error_def)

lemma call_Convert_eq:
  "c a (world s) = ((cv, e), w) \<Longrightarrow>
   call_Convert c a s = ((cv, e), \<lparr>world = w, calls = calls s @ [ConvertCall a cv e]\<rparr>)"
  by (simp add: call_Convert_def)

lemma call_Validate_eq:
  "v cv (world s) = (e, w) \<Longrightarrow>
   call_Validate v cv s = (e, \<lparr>world = w, calls = calls s @ [ValidateCall cv e]\<rparr>)"
  by (simp add: call_Validate_def)

lemma call_WriteAnswer_eq:
  "W t nm cv (world s) = (e, w) \<Longrightarrow>
   call_WriteAnswer W t nm cv s = (e, \<lparr>world = w, calls = calls s @ [WriteAnswerCall t nm cv e]\<rparr>)"
  by (simp add: call_WriteAnswer_def)

lemmas call_eqs = call_Prompt_eq call_Cleanup_eq call_Error_eq call_Convert_eq call_Validate_eq call_WriteAnswer_eq

lemma call_Prompt_calls:
  "call_Prompt p s = ((a, e), s') \<Longrightarrow> calls s' = calls s @ [PromptCall a e]"
  by (auto simp: call_Prompt_def split: prod.splits)

lemma call_Cleanup_calls:
  "call_Cleanup p a s = (e, s') \<Longrightarrow> calls s' = calls s @ [CleanupCall a e]"
  by (auto simp: call_Cleanup_def split: prod.splits)

lemma call_Error_calls:
  "call_Error p i s = (e, s') \<Longrightarrow> calls s' = calls s @ [ErrorCall i e]"
  by (auto simp: call_Error_def split: prod.splits)

lemma call_Convert_calls:
  "call_Convert c a s = ((cv, e), s') \<Longrightarrow> calls s' = calls s @ [ConvertCall a cv e]"
  by (auto simp: call_Convert_def split: prod.splits)

lemma call_Validate_calls:
  "call_Validate v cv s = (e, s') \<Longrightarrow> calls s' = calls s @ [ValidateCall cv e]"
  by (auto simp: call_Validate_def split: prod.splits)

lemma call_WriteAnswer_calls:
  "call_WriteAnswer W t nm cv s = (e, s') \<Longrightarrow> calls s' = calls s @ [WriteAnswerCall t nm cv e]"
  by (auto simp: call_WriteAnswer_def split: prod.splits)

lemmas call_calls = call_Prompt_calls call_Cleanup_calls call_Error_calls call_Convert_calls
  call_Validate_calls call_WriteAnswer_calls

lemma ends_as_prepend:
  "ends_as r evs \<Longrightarrow> \<forall>c \<in> set pre. failed c = None \<Longrightarrow> ends_as r (pre @ evs)"
  unfolding ends_as_def
  apply (cases r)
   apply simp
   apply blast
  subgoal for out
    apply (cases out)
    subgoal for eo
      apply (cases eo)
       apply simp
      apply simp
      apply (elim exE conjE)
      subgoal for e evs' c
        apply (rule exI[of _ "pre @ evs'"])
        apply auto
        done
      done
     apply simp
     apply blast
    apply simp
    apply blast
    done
  done


lemma last_raw_append: "last_raw a (xs @ ys) = last_raw (last_raw a xs) ys"
  by (induction a xs rule: last_raw.induct) simp_all

lemma convert_loop_log:
  "convert_loop n p c ans s = (r, s') \<Longrightarrow>
   \<exists>evs. calls s' = calls s @ evs \<and> ends_as r evs \<and> (\<forall>c \<in> set evs. convert_loop_call c)
     \<and> (\<forall>a' cv. r = Next (a', cv) \<longrightarrow> last_raw (Some ans) evs = Some a')"
proof (induction n arbitrary: ans s)
  case 0
  then show ?case by (auto simp: ends_as_def)
next
  case (Suc n)
  obtain cv inv s1 where c1: "call_Convert c ans s = ((cv, inv), s1)"
    by (metis prod.exhaust)
  note l1 = call_Convert_calls[OF c1]
  show ?case
  proof (cases inv)
    case None
    with Suc.prems c1 l1 show ?thesis by (auto simp: ends_as_def)
  next
    case (Some invalid)
    obtain e s2 where c2: "call_Error p invalid s1 = (e, s2)" by (metis prod.exhaust)
    note l2 = call_Error_calls[OF c2]
    show ?thesis
    proof (cases e)
      case (Some err)
      with Suc.prems c1 l1 c2 l2 \<open>inv = Some invalid\<close> have "r = Exit (Returned (Some err))" "s' = s2"
        by auto
      then show ?thesis using l1 l2 Some
        by (auto simp: ends_as_def intro!: exI[of _ "[ConvertCall ans cv inv]"])
    next
      case None
      obtain a' e' s3 where c3: "call_Prompt p s2 = ((a', e'), s3)" by (metis prod.exhaust)
      note l3 = call_Prompt_calls[OF c3]
      show ?thesis
      proof (cases e')
        case (Some err)
        with Suc.prems c1 c2 c3 None \<open>inv = Some invalid\<close> have "r = Exit (Returned (Some err))" "s' = s3"
          by auto
        then show ?thesis using l1 l2 l3 Some None
          by (auto simp: ends_as_def intro!: exI[of _ "[ConvertCall ans cv inv, ErrorCall invalid None]"])
      next
        case None
        with Suc.prems c1 c2 c3 \<open>e = None\<close> \<open>inv = Some invalid\<close> have "convert_loop n p c a' s3 = (r, s')"
          by auto
        from Suc.IH[OF this] obtain evs where
          ih: "calls s' = calls s3 @ evs" "ends_as r evs" "\<forall>c \<in> set evs. convert_loop_call c"
            "\<forall>a'' cv. r = Next (a'', cv) \<longrightarrow> last_raw (Some a') evs = Some a''"
          by blast
        have "ends_as r ([ConvertCall ans cv inv, ErrorCall invalid e, PromptCall a' e'] @ evs)"
          by (rule ends_as_prepend[OF ih(2)]) (simp add: None \<open>e = None\<close>)
        then show ?thesis using ih l1 l2 l3
          by (intro exI[of _ "[ConvertCall ans cv inv, ErrorCall invalid e, PromptCall a' e'] @ evs"]) auto
      qed
    qed
  qed
qed

lemma validate_loop_log:
  "validate_loop n p v ans cv s = (r, s') \<Longrightarrow>
   \<exists>evs. calls s' = calls s @ evs \<and> ends_as r evs \<and> (\<forall>c \<in> set evs. validate_loop_call cv c)
     \<and> (\<forall>a'. r = Next a' \<longrightarrow> last_raw (Some ans) evs = Some a')"
proof (induction n arbitrary: ans s)
  case 0
  then show ?case by (auto simp: ends_as_def)
next
  case (Suc n)
  obtain inv s1 where c1: "call_Validate v cv s = (inv, s1)"
    by (metis prod.exhaust)
  note l1 = call_Validate_calls[OF c1]
  show ?case
  proof (cases inv)
    case None
    with Suc.prems c1 l1 show ?thesis by (auto simp: ends_as_def)
  next
    case (Some invalid)
    obtain e s2 where c2: "call_Error p invalid s1 = (e, s2)" by (metis prod.exhaust)
    note l2 = call_Error_calls[OF c2]
    show ?thesis
    proof (cases e)
      case (Some err)
      with Suc.prems c1 l1 c2 l2 \<open>inv = Some invalid\<close> have "r = Exit (Returned (Some err))" "s' = s2"
        by auto
      then show ?thesis using l1 l2 Some
        by (auto simp: ends_as_def intro!: exI[of _ "[ValidateCall cv inv]"])
    next
      case None
      obtain a' e' s3 where c3: "call_Prompt p s2 = ((a', e'), s3)" by (metis prod.exhaust)
      note l3 = call_Prompt_calls[OF c3]
      show ?thesis
      proof (cases e')
        case (Some err)
        with Suc.prems c1 c2 c3 None \<open>inv = Some invalid\<close> have "r = Exit (Returned (Some err))" "s' = s3"
          by auto
        then show ?thesis using l1 l2 l3 Some None
          by (auto simp: ends_as_def intro!: exI[of _ "[ValidateCall cv inv, ErrorCall invalid None]"])
      next
        case None
        with Suc.prems c1 c2 c3 \<open>e = None\<close> \<open>inv = Some invalid\<close> have "validate_loop n p v a' cv s3 = (r, s')"
          by auto
        from Suc.IH[OF this] obtain evs where
          ih: "calls s' = calls s3 @ evs" "ends_as r evs" "\<forall>c \<in> set evs. validate_loop_call cv c"
            "\<forall>a''. r = Next a'' \<longrightarrow> last_raw (Some a') evs = Some a''"
          by blast
        have "ends_as r ([ValidateCall cv inv, ErrorCall invalid e, PromptCall a' e'] @ evs)"
          by (rule ends_as_prepend[OF ih(2)]) (simp add: None \<open>e = None\<close>)
        then show ?thesis using ih l1 l2 l3
          by (intro exI[of _ "[ValidateCall cv inv, ErrorCall invalid e, PromptCall a' e'] @ evs"]) auto
      qed
    qed
  qed
qed

lemma convert_phase_log:
  "convert_phase n p q ans s = (r, s') \<Longrightarrow>
   \<exists>evs. calls s' = calls s @ evs \<and> ends_as r evs \<and> (\<forall>c \<in> set evs. convert_loop_call c)
     \<and> (\<forall>a' cv. r = Next (a', cv) \<longrightarrow> last_raw (Some ans) evs = Some a')
     \<and> (Convert q = None \<longrightarrow> evs = [] \<and> r = Next (ans, ans))"
  unfolding convert_phase_def
  by (cases "Convert q") (auto simp: ends_as_def dest: convert_loop_log)

lemma validate_phase_log:
  "validate_phase n p q ans cv s = (r, s') \<Longrightarrow>
   \<exists>evs. calls s' = calls s @ evs \<and> ends_as r evs \<and> (\<forall>c \<in> set evs. validate_loop_call cv c)
     \<and> (\<forall>a'. r = Next a' \<longrightarrow> last_raw (Some ans) evs = Some a')"
  unfolding validate_phase_def
  by (cases "Validate q") (auto simp: ends_as_def dest: validate_loop_log)

lemma cleanup_and_write_log:
  "cleanup_and_write W t p q None ans cv s = (r, s') \<Longrightarrow>
   \<exists>rc rw. calls s' = calls s @ [CleanupCall ans rc, WriteAnswerCall t (Name q) cv rw] \<and> r = flow_of_write rw"
proof -
  assume run: "cleanup_and_write W t p q None ans cv s = (r, s')"
  obtain rc s1 where c1: "call_Cleanup p ans s = (rc, s1)" by (metis prod.exhaust)
  obtain rw s2 where c2: "call_WriteAnswer W t (Name q) cv s1 = (rw, s2)" by (metis prod.exhaust)
  from run c1 c2 have "r = flow_of_write rw" "s' = s2"
    by (auto simp: cleanup_and_write_def flow_of_write_def split: option.splits)
  with call_Cleanup_calls[OF c1] call_WriteAnswer_calls[OF c2] show ?thesis by auto
qed

lemma ask_question_cases [consumes 2, case_names prompt_failed convert_exit validate_exit accepted]:
  assumes "ask_question n W t (Some q) s = (r, s')" and "Prompt q = Some p"
  obtains
    (prompt_failed) a0 e where "call_Prompt p s = ((a0, Some e), s')" "r = Exit (Returned (Some e))"
  | (convert_exit) a0 s1 out where "call_Prompt p s = ((a0, None), s1)"
      "convert_phase n p q a0 s1 = (Exit out, s')" "r = Exit out"
  | (validate_exit) a0 s1 a cv s2 out where "call_Prompt p s = ((a0, None), s1)"
      "convert_phase n p q a0 s1 = (Next (a, cv), s2)"
      "validate_phase n p q a cv s2 = (Exit out, s')" "r = Exit out"
  | (accepted) a0 s1 a cv s2 a' s3 where "call_Prompt p s = ((a0, None), s1)"
      "convert_phase n p q a0 s1 = (Next (a, cv), s2)"
      "validate_phase n p q a cv s2 = (Next a', s3)"
      "cleanup_and_write W t p q None a' cv s3 = (r, s')"
proof -
  obtain a0 e0 s1 where c1: "call_Prompt p s = ((a0, e0), s1)" by (metis prod.exhaust)
  show thesis
  proof (cases e0)
    case (Some e)
    with assms c1 show thesis by (intro prompt_failed[of a0 e]) (auto simp: ask_question_def)
  next
    case None
    obtain r2 s2 where c2: "convert_phase n p q a0 s1 = (r2, s2)" by (metis prod.exhaust)
    show thesis
    proof (cases r2)
      case (Exit out)
      with assms c1 c2 None show thesis by (intro convert_exit[of a0 s1 out]) (auto simp: ask_question_def)
    next
      case (Next acv)
      obtain a cv where acv: "acv = (a, cv)" by (cases acv)
      obtain r3 s3 where c3: "validate_phase n p q a cv s2 = (r3, s3)" by (metis prod.exhaust)
      show thesis
      proof (cases r3)
        case (Exit out)
        with assms c1 c2 c3 None Next acv show thesis
          by (intro validate_exit[of a0 s1 a cv s2 out]) (auto simp: ask_question_def)
      next
        case (Next a')
        with assms c1 c2 c3 None \<open>r2 = Next acv\<close> acv show thesis
          by (intro accepted[of a0 s1 a cv s2 a' s3]) (auto simp: ask_question_def)
      qed
    qed
  qed
qed

lemma ends_as_Exit_any: "ends_as (Exit out :: ('a, 'x) flow) evs \<Longrightarrow> ends_as (Exit out :: ('b, 'x) flow) evs"
  by (simp add: ends_as_def)

lemma ends_as_Next: "ends_as (Next a) evs = (\<forall>c \<in> set evs. failed c = None)"
  by (simp add: ends_as_def)

lemma ends_as_flow_of_write:
  "ends_as (flow_of_write rw) [CleanupCall a rc, WriteAnswerCall t nm cv rw]"
  by (cases rw) (auto simp: ends_as_def flow_of_write_def intro: exI[of _ "[CleanupCall a rc]"])

lemma convert_loop_call_kind:
  "convert_loop_call c \<Longrightarrow> \<not> is_WriteAnswerCall c \<and> \<not> is_CleanupCall c"
  by (cases c) simp_all

lemma validate_loop_call_kind:
  "validate_loop_call cv c \<Longrightarrow> \<not> is_WriteAnswerCall c \<and> \<not> is_CleanupCall c \<and> \<not> is_ConvertCall c"
  by (cases c) simp_all

lemma ask_question_log:
  assumes run: "ask_question n W t qp (s :: ('t, 'v, 'x, 'w) state) = (r, s')"
  shows "\<exists>evs. calls s' = calls s @ evs \<and> ends_as r evs \<and> (\<forall>c \<in> set (butlast evs). \<not> is_WriteAnswerCall c)"
proof (cases qp)
  case None
  with run show ?thesis by (auto simp: ask_question_def ends_as_def)
next
  case (Some q)
  show ?thesis
  proof (cases "Prompt q")
    case None
    with run Some show ?thesis by (auto simp: ask_question_def ends_as_def)
  next
    case (Some p)
    from run[unfolded \<open>qp = Some q\<close>] Some show ?thesis
    proof (cases rule: ask_question_cases)
      case (prompt_failed a0 e)
      from call_Prompt_calls[OF prompt_failed(1)] prompt_failed(2) show ?thesis
        by (auto simp: ends_as_def)
    next
      case (convert_exit a0 s1 out)
      from convert_phase_log[OF convert_exit(2)] obtain evs where
        e: "calls s' = calls s1 @ evs" "ends_as (Exit out :: ('v \<times> 'v, 'x) flow) evs" "\<forall>c \<in> set evs. convert_loop_call c"
        by blast
      have "ends_as r ([PromptCall a0 None] @ evs)"
        unfolding convert_exit(3) by (rule ends_as_prepend[OF ends_as_Exit_any[OF e(2)]]) simp
      moreover have "\<forall>c \<in> set ([PromptCall a0 None] @ evs). \<not> is_WriteAnswerCall c"
        using e(3) by (auto dest: convert_loop_call_kind)
      ultimately show ?thesis using call_Prompt_calls[OF convert_exit(1)] e(1)
        by (intro exI[of _ "[PromptCall a0 None] @ evs"]) (auto dest: in_set_butlastD)
    next
      case (validate_exit a0 s1 a cv s2 out)
      from convert_phase_log[OF validate_exit(2)] obtain evs where
        e: "calls s2 = calls s1 @ evs" "ends_as (Next (a, cv) :: ('v \<times> 'v, 'x) flow) evs" "\<forall>c \<in> set evs. convert_loop_call c"
        by blast
      from validate_phase_log[OF validate_exit(3)] obtain evs2 where
        e2: "calls s' = calls s2 @ evs2" "ends_as (Exit out :: ('v, 'x) flow) evs2" "\<forall>c \<in> set evs2. validate_loop_call cv c"
        by blast
      have "ends_as r (([PromptCall a0 None] @ evs) @ evs2)"
        unfolding validate_exit(4) 
        by (rule ends_as_prepend[OF ends_as_Exit_any[OF e2(2)]]) (use e(2) in \<open>auto simp: ends_as_Next\<close>)
      moreover have "\<forall>c \<in> set (([PromptCall a0 None] @ evs) @ evs2). \<not> is_WriteAnswerCall c"
        using e(3) e2(3) by (auto dest: convert_loop_call_kind validate_loop_call_kind)
      ultimately show ?thesis using call_Prompt_calls[OF validate_exit(1)] e(1) e2(1)
        by (intro exI[of _ "([PromptCall a0 None] @ evs) @ evs2"]) (auto dest: in_set_butlastD)
    next
      case (accepted a0 s1 a cv s2 a' s3)
      from convert_phase_log[OF accepted(2)] obtain evs where
        e: "calls s2 = calls s1 @ evs" "ends_as (Next (a, cv) :: ('v \<times> 'v, 'x) flow) evs" "\<forall>c \<in> set evs. convert_loop_call c"
        by blast
      from validate_phase_log[OF accepted(3)] obtain evs2 where
        e2: "calls s3 = calls s2 @ evs2" "ends_as (Next a' :: ('v, 'x) flow) evs2" "\<forall>c \<in> set evs2. validate_loop_call cv c"
        by blast
      from cleanup_and_write_log[OF accepted(4)] obtain rc rw where
        e3: "calls s' = calls s3 @ [CleanupCall a' rc, WriteAnswerCall t (Name q) cv rw]" "r = flow_of_write rw"
        by blast
      let ?pre = "[PromptCall a0 None] @ evs @ evs2"
      let ?fin = "[CleanupCall a' rc, WriteAnswerCall t (Name q) cv rw]"
      have "ends_as r (?pre @ ?fin)"
        unfolding e3(2)
        by (rule ends_as_prepend[OF ends_as_flow_of_write]) (use e(2) e2(2) in \<open>auto simp: ends_as_Next\<close>)
      moreover have "\<forall>c \<in> set (?pre @ [CleanupCall a' rc]). \<not> is_WriteAnswerCall c"
        using e(3) e2(3) by (auto dest: convert_loop_call_kind validate_loop_call_kind)
      moreover have "butlast (?pre @ ?fin) = ?pre @ [CleanupCall a' rc]"
        by (simp add: butlast_append)
      ultimately show ?thesis using call_Prompt_calls[OF accepted(1)] e(1) e2(1) e3(1)
        by (intro exI[of _ "?pre @ ?fin"]) (simp del: butlast.simps)
    qed
  qed
qed

lemma and_then_assoc:
  "and_then (and_then x f) g = and_then x (\<lambda>a s. and_then (f a s) g)"
proof (cases x)
  case (Pair r s)
  then show ?thesis by (cases r) simp_all
qed

lemma ask_loop_append:
  "ask_loop n W t (pre @ rest) s = and_then (ask_loop n W t pre s) (\<lambda>_ s'. ask_loop n W t rest s')"
proof (induction pre arbitrary: s)
  case Nil
  show ?case by simp
next
  case (Cons q pre)
  have "ask_loop n W t (pre @ rest) =
        (\<lambda>s'. and_then (ask_loop n W t pre s') (\<lambda>_ s''. ask_loop n W t rest s''))"
    by (intro ext) (rule Cons.IH)
  then show ?case by (simp add: and_then_assoc)
qed

lemma made_append: "calls s' = calls s @ evs \<Longrightarrow> made s s' = evs"
  by (simp add: made_def)

lemmas run_defs = ask_question_def convert_phase_def validate_phase_def cleanup_and_write_def
  call_Prompt_def call_Cleanup_def call_Error_def call_Convert_def call_Validate_def call_WriteAnswer_def
  made_def




lemma validate_phase_calls:
  assumes "validate_phase m p q ans cv s = (r, s')"
  shows "\<forall>c \<in> set (made s s'). validate_loop_call cv c"
proof -
  from validate_phase_log[OF assms] obtain evs where
    "calls s' = calls s @ evs" "\<forall>c \<in> set evs. validate_loop_call cv c" by blast
  then show ?thesis by (simp add: made_append)
qed

lemma convert_loop_call_uses:
  "convert_loop_call c \<Longrightarrow> write_name c = None \<and> value_used c = None"
  by (cases c) simp_all

lemma validate_loop_call_uses:
  "validate_loop_call cv c \<Longrightarrow> write_name c = None \<and> (value_used c = None \<or> value_used c = Some cv)"
  by (cases c) simp_all

text \<open>The log of one question\<close>

lemma ask_question_shape:
  assumes run: "ask_question n W t (Some q) (s :: ('t, 'v, 'x, 'w) state) = (r, s')" and p: "Prompt q = Some p"
  shows "\<exists>a0 e0 s1 evs1 cv evs2 fin.
           call_Prompt p s = ((a0, e0), s1)
         \<and> made s s' = PromptCall a0 e0 # evs1 @ evs2 @ fin
         \<and> (\<forall>c \<in> set evs1. convert_loop_call c)
         \<and> (Convert q = None \<longrightarrow> evs1 = [] \<and> cv = a0)
         \<and> (\<forall>c \<in> set evs2. validate_loop_call cv c)
         \<and> (fin = [] \<or> (\<exists>a' rc rw. fin = [CleanupCall a' rc, WriteAnswerCall t (Name q) cv rw]))"
  using run p
proof (cases rule: ask_question_cases)
  case (prompt_failed a0 e)
  from call_Prompt_calls[OF prompt_failed(1)] have "made s s' = [PromptCall a0 (Some e)]"
    by (simp add: made_append)
  with prompt_failed(1) show ?thesis
    by (intro exI[of _ a0] exI[of _ "Some e"] exI[of _ s'] exI[of _ "[]"] exI[of _ a0]) simp
next
  case (convert_exit a0 s1 out)
  from convert_phase_log[OF convert_exit(2)] obtain evs where
    e: "calls s' = calls s1 @ evs" "\<forall>c \<in> set evs. convert_loop_call c" "Convert q = None \<longrightarrow> evs = []"
    by auto
  from call_Prompt_calls[OF convert_exit(1)] e(1) have "made s s' = PromptCall a0 None # evs"
    by (simp add: made_append)
  with convert_exit(1) e show ?thesis
    by (intro exI[of _ a0] exI[of _ "None"] exI[of _ s1] exI[of _ evs] exI[of _ a0] exI[of _ "[]"]) simp
next
  case (validate_exit a0 s1 a cv s2 out)
  from convert_phase_log[OF validate_exit(2)] obtain evs where
    e: "calls s2 = calls s1 @ evs" "\<forall>c \<in> set evs. convert_loop_call c"
       "Convert q = None \<longrightarrow> evs = [] \<and> cv = a0"
    by auto
  from validate_phase_log[OF validate_exit(3)] obtain evs2 where
    e2: "calls s' = calls s2 @ evs2" "\<forall>c \<in> set evs2. validate_loop_call cv c"
    by blast
  from call_Prompt_calls[OF validate_exit(1)] e(1) e2(1) have "made s s' = PromptCall a0 None # evs @ evs2"
    by (simp add: made_append)
  with validate_exit(1) e e2 show ?thesis
    by (intro exI[of _ a0] exI[of _ "None"] exI[of _ s1] exI[of _ evs] exI[of _ cv] exI[of _ evs2]
        exI[of _ "[]"]) simp
next
  case (accepted a0 s1 a cv s2 a' s3)
  from convert_phase_log[OF accepted(2)] obtain evs where
    e: "calls s2 = calls s1 @ evs" "\<forall>c \<in> set evs. convert_loop_call c"
       "Convert q = None \<longrightarrow> evs = [] \<and> cv = a0"
    by auto
  from validate_phase_log[OF accepted(3)] obtain evs2 where
    e2: "calls s3 = calls s2 @ evs2" "\<forall>c \<in> set evs2. validate_loop_call cv c"
    by blast
  from cleanup_and_write_log[OF accepted(4)] obtain rc rw where
    e3: "calls s' = calls s3 @ [CleanupCall a' rc, WriteAnswerCall t (Name q) cv rw]"
    by blast
  from call_Prompt_calls[OF accepted(1)] e(1) e2(1) e3
  have "made s s' = PromptCall a0 None # evs @ evs2 @ [CleanupCall a' rc, WriteAnswerCall t (Name q) cv rw]"
    by (simp add: made_append)
  with accepted(1) e e2 show ?thesis
    by (intro exI[of _ a0] exI[of _ "None"] exI[of _ s1] exI[of _ evs] exI[of _ cv] exI[of _ evs2]
        exI[of _ "[CleanupCall a' rc, WriteAnswerCall t (Name q) cv rw]"]) simp
qed

lemma ask_question_nil:
  "Prompt q = None \<Longrightarrow> ask_question n W t (Some q) s = (Exit Panicked, s)"
  "ask_question n W t None s = (Exit Panicked, s)"
  by (simp_all add: ask_question_def)

lemma made_same [simp]: "made s s = []"
  by (simp add: made_def)

lemma ask_question_write_name:
  assumes c: "c \<in> set (made s (snd (ask_question n W t (Some q) s)))" and w: "write_name c = Some name"
  shows "name = Name q"
proof (cases "Prompt q")
  case None
  with c show ?thesis by (simp add: ask_question_nil)
next
  case (Some p)
  obtain r s' where run: "ask_question n W t (Some q) s = (r, s')" by (metis prod.exhaust)
  from ask_question_shape[OF run Some] obtain a0 e0 evs1 cv evs2 fin where
    m: "made s s' = PromptCall a0 e0 # evs1 @ evs2 @ fin"
    and e1: "\<forall>c \<in> set evs1. convert_loop_call c"
    and e2: "\<forall>c \<in> set evs2. validate_loop_call cv c"
    and fin: "fin = [] \<or> (\<exists>a' rc rw. fin = [CleanupCall a' rc, WriteAnswerCall t (Name q) cv rw])"
    by blast
  from c run m have "c = PromptCall a0 e0 \<or> c \<in> set evs1 \<or> c \<in> set evs2 \<or> c \<in> set fin" by auto
  then show ?thesis
  proof (elim disjE)
    assume "c = PromptCall a0 e0" with w show ?thesis by simp
  next
    assume "c \<in> set evs1"
    with e1 have "convert_loop_call c" by simp
    from convert_loop_call_uses[OF this] w show ?thesis by simp
  next
    assume "c \<in> set evs2"
    with e2 have "validate_loop_call cv c" by simp
    from validate_loop_call_uses[OF this] w show ?thesis by simp
  next
    assume "c \<in> set fin" with fin w show ?thesis by auto
  qed
qed

lemma call_Prompt_cleanup_returning [simp]:
  "call_Prompt (cleanup_returning f p) s = call_Prompt p s"
  by (simp add: call_Prompt_def cleanup_returning_def)

lemma call_Error_cleanup_returning [simp]:
  "call_Error (cleanup_returning f p) e s = call_Error p e s"
  by (simp add: call_Error_def cleanup_returning_def)

lemma convert_loop_cleanup_returning:
  "convert_loop n (cleanup_returning f p) c a s = convert_loop n p c a s"
  by (induction n arbitrary: a s) (simp_all split: prod.splits option.splits)

lemma validate_loop_cleanup_returning:
  "validate_loop n (cleanup_returning f p) v a cv s = validate_loop n p v a cv s"
  by (induction n arbitrary: a s) (simp_all split: prod.splits option.splits)

lemma phases_cleanup_returning:
  "convert_phase n (cleanup_returning f p) (q\<lparr>Prompt := Some (cleanup_returning f p)\<rparr>) a s
     = convert_phase n p q a s"
  "validate_phase n (cleanup_returning f p) (q\<lparr>Prompt := Some (cleanup_returning f p)\<rparr>) a cv s
     = validate_phase n p q a cv s"
  by (simp_all add: convert_phase_def validate_phase_def convert_loop_cleanup_returning
      validate_loop_cleanup_returning split: option.splits)

section \<open>The bound on the loops\<close>

text \<open>A larger bound does not change a loop that ended within the smaller one.\<close>

lemma convert_loop_fuel:
  "convert_loop n p c a s = (r, s') \<Longrightarrow> r \<noteq> Exit OutOfFuel \<Longrightarrow> convert_loop (n + k) p c a s = (r, s')"
proof (induction n arbitrary: a s)
  case 0
  then show ?case by simp
next
  case (Suc n)
  obtain cv inv s1 where c1: "call_Convert c a s = ((cv, inv), s1)" by (metis prod.exhaust)
  show ?case
  proof (cases inv)
    case None
    with Suc.prems c1 show ?thesis by simp
  next
    case (Some invalid)
    obtain e s2 where c2: "call_Error p invalid s1 = (e, s2)" by (metis prod.exhaust)
    show ?thesis
    proof (cases e)
      case (Some err)
      with Suc.prems c1 c2 \<open>inv = Some invalid\<close> show ?thesis by simp
    next
      case None
      obtain a' e' s3 where c3: "call_Prompt p s2 = ((a', e'), s3)" by (metis prod.exhaust)
      show ?thesis
      proof (cases e')
        case (Some err)
        with Suc.prems c1 c2 c3 None \<open>inv = Some invalid\<close> show ?thesis by simp
      next
        case None
        with Suc.prems c1 c2 c3 \<open>e = None\<close> \<open>inv = Some invalid\<close>
        have "convert_loop n p c a' s3 = (r, s')" by simp
        from Suc.IH[OF this Suc.prems(2)] c1 c2 c3 None \<open>e = None\<close> \<open>inv = Some invalid\<close>
        show ?thesis by simp
      qed
    qed
  qed
qed

lemma validate_loop_fuel:
  "validate_loop n p v a cv s = (r, s') \<Longrightarrow> r \<noteq> Exit OutOfFuel \<Longrightarrow> validate_loop (n + k) p v a cv s = (r, s')"
proof (induction n arbitrary: a s)
  case 0
  then show ?case by simp
next
  case (Suc n)
  obtain inv s1 where c1: "call_Validate v cv s = (inv, s1)" by (metis prod.exhaust)
  show ?case
  proof (cases inv)
    case None
    with Suc.prems c1 show ?thesis by simp
  next
    case (Some invalid)
    obtain e s2 where c2: "call_Error p invalid s1 = (e, s2)" by (metis prod.exhaust)
    show ?thesis
    proof (cases e)
      case (Some err)
      with Suc.prems c1 c2 \<open>inv = Some invalid\<close> show ?thesis by simp
    next
      case None
      obtain a' e' s3 where c3: "call_Prompt p s2 = ((a', e'), s3)" by (metis prod.exhaust)
      show ?thesis
      proof (cases e')
        case (Some err)
        with Suc.prems c1 c2 c3 None \<open>inv = Some invalid\<close> show ?thesis by simp
      next
        case None
        with Suc.prems c1 c2 c3 \<open>e = None\<close> \<open>inv = Some invalid\<close>
        have "validate_loop n p v a' cv s3 = (r, s')" by simp
        from Suc.IH[OF this Suc.prems(2)] c1 c2 c3 None \<open>e = None\<close> \<open>inv = Some invalid\<close>
        show ?thesis by simp
      qed
    qed
  qed
qed

lemma validate_loop_rejecting:
  assumes rejects: "\<forall>w. v cv w = (Some invalid, w)"
    and prompt_ok: "\<forall>w. snd (fst (Prompt_Prompt p w)) = None"
    and error_ok: "\<forall>e w. fst (Prompt_Error p e w) = None"
  shows "\<exists>s' evs. validate_loop n p v a cv s = (Exit OutOfFuel, s') \<and> calls s' = calls s @ evs
           \<and> filter is_ValidateCall evs = replicate n (ValidateCall cv (Some invalid))"
proof (induction n arbitrary: a s)
  case 0
  show ?case by simp
next
  case (Suc n)
  let ?s1 = "\<lparr>world = world s, calls = calls s @ [ValidateCall cv (Some invalid)]\<rparr>"
  have c1: "call_Validate v cv s = (Some invalid, ?s1)"
    by (simp add: call_Validate_def rejects)
  obtain w2 where r2: "Prompt_Error p invalid (world s) = (None, w2)"
    using error_ok[rule_format, of invalid "world s"] by (cases "Prompt_Error p invalid (world s)") auto
  let ?s2 = "\<lparr>world = w2, calls = calls s @ [ValidateCall cv (Some invalid), ErrorCall invalid None]\<rparr>"
  have c2: "call_Error p invalid ?s1 = (None, ?s2)"
    by (simp add: call_Error_def r2)
  obtain a' w3 where r3: "Prompt_Prompt p w2 = ((a', None), w3)"
    using prompt_ok[rule_format, of w2] by (cases "Prompt_Prompt p w2") auto
  let ?s3 = "\<lparr>world = w3,
              calls = calls s @ [ValidateCall cv (Some invalid), ErrorCall invalid None, PromptCall a' None]\<rparr>"
  have c3: "call_Prompt p ?s2 = ((a', None), ?s3)"
    by (simp add: call_Prompt_def r3)
  from Suc.IH[of a' ?s3] obtain s' evs where
    ih: "validate_loop n p v a' cv ?s3 = (Exit OutOfFuel, s')" "calls s' = calls ?s3 @ evs"
        "filter is_ValidateCall evs = replicate n (ValidateCall cv (Some invalid))"
    by blast
  have "validate_loop (Suc n) p v a cv s = (Exit OutOfFuel, s')"
    by (simp add: c1 c2 c3 ih(1))
  moreover have "calls s' = calls s @ ([ValidateCall cv (Some invalid), ErrorCall invalid None, PromptCall a' None] @ evs)"
    by (simp add: ih(2))
  moreover have "filter is_ValidateCall ([ValidateCall cv (Some invalid), ErrorCall invalid None, PromptCall a' None] @ evs)
      = replicate (Suc n) (ValidateCall cv (Some invalid))"
    by (simp add: ih(3))
  ultimately show ?case by blast
qed

section \<open>\<^verbatim>\<open>AskOne\<close> and \<^verbatim>\<open>Ask\<close>\<close>

lemma AskOne_state:
  "snd (AskOne n W p t v c s) = snd (Ask n W [Some \<lparr>Name = [], Prompt = p, Validate = v, Convert = c\<rparr>] t s)"
proof (cases "Ask n W [Some \<lparr>Name = [], Prompt = p, Validate = v, Convert = c\<rparr>] t s")
  case (Pair out s')
  then show ?thesis by (cases out) (simp_all add: AskOne_def)
qed

section \<open>The result does not depend on the bound\<close>

text \<open>
  A run of \<^verbatim>\<open>Ask\<close> that ends within the bound \<open>n\<close> on its loops ends the same way, in
  the same state, under every larger bound.
\<close>

lemma convert_phase_fuel:
  "convert_phase n p q a s = (r, s') \<Longrightarrow> r \<noteq> Exit OutOfFuel \<Longrightarrow> convert_phase (n + k) p q a s = (r, s')"
  by (cases "Convert q") (simp_all add: convert_phase_def convert_loop_fuel)

lemma validate_phase_fuel:
  "validate_phase n p q a cv s = (r, s') \<Longrightarrow> r \<noteq> Exit OutOfFuel \<Longrightarrow> validate_phase (n + k) p q a cv s = (r, s')"
  by (cases "Validate q") (simp_all add: validate_phase_def validate_loop_fuel)

lemma ask_question_fuel:
  assumes run: "ask_question n W t qp (s :: ('t, 'v, 'x, 'w) state) = (r, s')" and r: "r \<noteq> Exit OutOfFuel"
  shows "ask_question (n + k) W t qp s = (r, s')"
proof (cases qp)
  case None
  with run show ?thesis by (simp add: ask_question_def)
next
  case (Some q)
  show ?thesis
  proof (cases "Prompt q")
    case None
    with run Some show ?thesis by (simp add: ask_question_def)
  next
    case (Some p)
    from run[unfolded \<open>qp = Some q\<close>] Some show ?thesis
    proof (cases rule: ask_question_cases)
      case (prompt_failed a0 e)
      with Some \<open>qp = Some q\<close> show ?thesis by (simp add: ask_question_def)
    next
      case (convert_exit a0 s1 out)
      from convert_exit(3) r have "Exit out \<noteq> (Exit OutOfFuel :: ('v \<times> 'v, 'x) flow)" by simp
      from convert_phase_fuel[OF convert_exit(2) this, of k] convert_exit(1,3) Some \<open>qp = Some q\<close>
      show ?thesis by (simp add: ask_question_def)
    next
      case (validate_exit a0 s1 a cv s2 out)
      have c: "convert_phase (n + k) p q a0 s1 = (Next (a, cv), s2)"
        by (rule convert_phase_fuel[OF validate_exit(2)]) simp
      from validate_exit(4) r have "Exit out \<noteq> (Exit OutOfFuel :: ('v, 'x) flow)" by simp
      from validate_phase_fuel[OF validate_exit(3) this, of k] c validate_exit(1,4) Some \<open>qp = Some q\<close>
      show ?thesis by (simp add: ask_question_def)
    next
      case (accepted a0 s1 a cv s2 a' s3)
      have c: "convert_phase (n + k) p q a0 s1 = (Next (a, cv), s2)"
        by (rule convert_phase_fuel[OF accepted(2)]) simp
      have v: "validate_phase (n + k) p q a cv s2 = (Next a', s3)"
        by (rule validate_phase_fuel[OF accepted(3)]) simp
      from c v accepted(1,4) Some \<open>qp = Some q\<close>
      show ?thesis by (simp add: ask_question_def)
    qed
  qed
qed

lemma ask_loop_fuel:
  "ask_loop n W t qs s = (r, s') \<Longrightarrow> r \<noteq> Exit OutOfFuel \<Longrightarrow> ask_loop (n + k) W t qs s = (r, s')"
proof (induction qs arbitrary: s)
  case Nil
  then show ?case by simp
next
  case (Cons q qs)
  obtain r1 s1 where q1: "ask_question n W t q s = (r1, s1)" by (metis prod.exhaust)
  show ?case
  proof (cases r1)
    case (Next u)
    with Cons.prems q1 have "ask_loop n W t qs s1 = (r, s')" by simp
    from Cons.IH[OF this Cons.prems(2)] ask_question_fuel[OF q1, of k] Next
    show ?thesis by simp
  next
    case (Exit out)
    with Cons.prems q1 have "r = Exit out" "s' = s1" by simp_all
    with Cons.prems(2) ask_question_fuel[OF q1, of k] Exit show ?thesis by simp
  qed
qed

lemma Ask_fuel:
  assumes "Ask n W qs t s = (out, s')" and "out \<noteq> OutOfFuel"
  shows "Ask (n + k) W qs t s = (out, s')"
proof (cases t)
  case None
  with assms show ?thesis by (simp add: Ask_def)
next
  case (Some d)
  obtain r s1 where l: "ask_loop n W d qs s = (r, s1)" by (metis prod.exhaust)
  show ?thesis
  proof (cases r)
    case (Next u)
    with assms Some l have "out = Returned None" "s' = s1" by (simp_all add: Ask_def)
    with ask_loop_fuel[OF l, of k] Next Some show ?thesis by (simp add: Ask_def)
  next
    case (Exit o1)
    with assms Some l have "out = o1" "s' = s1" by (simp_all add: Ask_def)
    with ask_loop_fuel[OF l, of k] Exit Some assms(2) show ?thesis by (simp add: Ask_def)
  qed
qed

section \<open>At most one \<^verbatim>\<open>Cleanup\<close> call for a question\<close>

lemma cleanup_at_most_once:
  "length (filter is_CleanupCall (made s (snd (ask_question n W t qp s)))) \<le> 1"
proof (cases qp)
  case None
  then show ?thesis by (simp add: ask_question_nil)
next
  case (Some q)
  show ?thesis
  proof (cases "Prompt q")
    case None
    with Some show ?thesis by (simp add: ask_question_nil)
  next
    case (Some p)
    obtain r s' where run: "ask_question n W t (Some q) s = (r, s')" by (metis prod.exhaust)
    from ask_question_shape[OF run Some] obtain a0 e0 s1 evs1 cv evs2 fin where
      m: "made s s' = PromptCall a0 e0 # evs1 @ evs2 @ fin"
      and e1: "\<forall>c \<in> set evs1. convert_loop_call c"
      and e2: "\<forall>c \<in> set evs2. validate_loop_call cv c"
      and fin: "fin = [] \<or> (\<exists>a' rc rw. fin = [CleanupCall a' rc, WriteAnswerCall t (Name q) cv rw])"
      by (elim exE conjE) (rule that)
    have n: "filter is_CleanupCall evs1 = []" "filter is_CleanupCall evs2 = []"
      using e1 e2 by (auto simp: filter_empty_conv dest: convert_loop_call_kind validate_loop_call_kind)
    from fin have "length (filter is_CleanupCall fin) \<le> 1" by auto
    with n m run \<open>qp = Some q\<close> show ?thesis by simp
  qed
qed

section \<open>Runs in which no call returns an error\<close>







section \<open>A nil destination\<close>

text \<open>
  C5. When the destination \<^verbatim>\<open>t\<close> is nil, \<^verbatim>\<open>Ask\<close> returns the error made at line 47
  at once, whatever the questions are: the world and the log of calls are the ones it
  was started with, so no \<^verbatim>\<open>Prompt()\<close>, \<^verbatim>\<open>Error()\<close>, \<^verbatim>\<open>Cleanup()\<close> or
  \<^verbatim>\<open>WriteAnswer\<close> call was made.
\<close>

theorem Ask_nil_destination:
  "Ask n WriteAnswer qs None s =
     (Returned (Some (errors_New ''cannot call Ask() with a nil reference to record the answers'')), s)"
  by (simp add: Ask_def)

section \<open>\<^verbatim>\<open>AskOne\<close> is \<^verbatim>\<open>Ask\<close> on one question\<close>

text \<open>
  C6. \<^verbatim>\<open>AskOne(p, t, v, c)\<close> ends exactly as \<^verbatim>\<open>Ask\<close> ends on the one-element slice made
  of \<open>p\<close>, \<open>v\<close> and \<open>c\<close> with the same \<open>t\<close>: the same outcome (the same error or nil), the
  same world and the same log of calls.
\<close>

theorem AskOne_is_Ask_singleton:
  "AskOne n WriteAnswer p t v c s =
     Ask n WriteAnswer [Some \<lparr>Name = [], Prompt = p, Validate = v, Convert = c\<rparr>] t s"
proof -
  obtain out s' where r:
    "Ask n WriteAnswer [Some \<lparr>Name = [], Prompt = p, Validate = v, Convert = c\<rparr>] t s = (out, s')"
    by (cases "Ask n WriteAnswer [Some \<lparr>Name = [], Prompt = p, Validate = v, Convert = c\<rparr>] t s")
  show ?thesis
    by (cases out) (simp_all add: AskOne_def r)
qed

section \<open>A failing call ends \<^verbatim>\<open>Ask\<close>\<close>

text \<open>
  C2. Let the questions before question \<open>q\<close> have been asked and bound (the loop over
  \<open>pre\<close> falls through in state \<open>s1\<close>), and let \<open>c\<close> be a call made while \<open>q\<close> is
  processed that is a \<^verbatim>\<open>Prompt()\<close>, an \<^verbatim>\<open>Error()\<close> or a \<^verbatim>\<open>WriteAnswer\<close> call
  returning the error \<open>e\<close>. Then \<^verbatim>\<open>Ask\<close> on the whole slice returns exactly \<open>e\<close>,
  whatever the questions \<open>rest\<close> after \<open>q\<close> are, in the state in which \<open>q\<close> stopped: \<open>c\<close> is the
  last call of the log, so no prompt of a later question is invoked; the log up to \<open>s1\<close>,
  with the \<^verbatim>\<open>WriteAnswer\<close> calls of the earlier questions, is a prefix of it, and between
  \<open>s1\<close> and \<open>c\<close> no call failed and no \<^verbatim>\<open>WriteAnswer\<close> call was made.
\<close>

theorem failure_aborts:
  assumes pre: "ask_loop n W t pre s = (Next (), s1)"
    and run: "ask_question n W t q s1 = (r, s2)"
    and c: "c \<in> set (made s1 s2)" "failed c = Some e"
  shows "Ask n W (pre @ q # rest) (Some t) s = (Returned (Some e), s2) \<and>
         (\<exists>evs. calls s2 = calls s1 @ evs @ [c] \<and>
                (\<forall>c' \<in> set evs. failed c' = None \<and> \<not> is_WriteAnswerCall c'))"
proof -
  from ask_question_log[OF run] obtain evs where
    e: "calls s2 = calls s1 @ evs" "ends_as r evs" "\<forall>c \<in> set (butlast evs). \<not> is_WriteAnswerCall c"
    by blast
  have m: "made s1 s2 = evs" by (rule made_append[OF e(1)])
  have "\<exists>evs'. r = Exit (Returned (Some e)) \<and> evs = evs' @ [c] \<and> (\<forall>c' \<in> set evs'. failed c' = None)"
  proof (cases r)
    case (Next u)
    with e(2) c m show ?thesis by (auto simp: ends_as_def)
  next
    case (Exit out)
    show ?thesis
    proof (cases out)
      case (Returned eo)
      show ?thesis
      proof (cases eo)
        case None
        with e(2) Exit Returned show ?thesis by (simp add: ends_as_def)
      next
        case (Some e')
        with e(2) Exit Returned obtain evs' c' where
          s: "evs = evs' @ [c']" "\<forall>x \<in> set evs'. failed x = None" "failed c' = Some e'"
          by (auto simp: ends_as_def)
        with c m have "c = c'" by auto
        with s c Exit Returned Some show ?thesis by auto
      qed
    next
      case Panicked
      with e(2) c m Exit show ?thesis by (auto simp: ends_as_def)
    next
      case OutOfFuel
      with e(2) c m Exit show ?thesis by (auto simp: ends_as_def)
    qed
  qed
  then obtain evs' where r: "r = Exit (Returned (Some e))" and s: "evs = evs' @ [c]"
    and cl: "\<forall>c' \<in> set evs'. failed c' = None" by blast
  have "ask_loop n W t (pre @ q # rest) s = (Exit (Returned (Some e)), s2)"
    by (simp add: ask_loop_append pre run r)
  then have "Ask n W (pre @ q # rest) (Some t) s = (Returned (Some e), s2)"
    by (simp add: Ask_def)
  moreover have "\<forall>c' \<in> set evs'. \<not> is_WriteAnswerCall c'"
    using e(3) s by simp
  ultimately show ?thesis using e(1) s cl by auto
qed

theorem failure_aborts_witness:
  "Ask (Suc 0) write_ok [plain_question ''a'', interrupted_question ''b'', plain_question ''c''] (Some ()) start =
     (Returned (Some (errors_New ''interrupt'')),
      \<lparr>world = 1, calls = [PromptCall 0 None, CleanupCall 0 None, WriteAnswerCall () ''a'' 0 None,
                           PromptCall 0 (Some (errors_New ''interrupt''))]\<rparr>)"
proof -
  let ?s1 = "\<lparr>world = 1, calls = [PromptCall 0 None, CleanupCall 0 None, WriteAnswerCall () ''a'' 0 None]\<rparr> :: (unit, nat, unit, nat) state"
  let ?c = "PromptCall 0 (Some (errors_New ''interrupt'')) :: (unit, nat, unit) call"
  let ?s2 = "\<lparr>world = 1, calls = calls ?s1 @ [?c]\<rparr> :: (unit, nat, unit, nat) state"
  have pre: "ask_loop (Suc 0) write_ok () [plain_question ''a''] start = (Next (), ?s1)"
    by (simp add: run_defs plain_question_def counting_prompt_def write_ok_def start_def)
  have run: "ask_question (Suc 0) write_ok () (interrupted_question ''b'') ?s1 = (Exit (Returned (Some (errors_New ''interrupt''))), ?s2)"
    by (simp add: run_defs interrupted_question_def interrupted_prompt_def)
  have c: "?c \<in> set (made ?s1 ?s2)" by (simp add: made_def)
  have f: "failed ?c = Some (errors_New ''interrupt'')" by simp
  from failure_aborts[OF pre run c f, of "[plain_question ''c'']"] show ?thesis by simp
qed

section \<open>Every call succeeds at its first attempt\<close>



section \<open>A validation retry does not convert again\<close>

text \<open>
  C3. Take a question with a validator, after its first \<^verbatim>\<open>Prompt()\<close> and its conversion
  phase have left the raw answer \<open>a\<close> and the converted answer \<open>cv\<close>. If \<^verbatim>\<open>Validate\<close>
  rejects \<open>cv\<close>, \<^verbatim>\<open>Error()\<close> reports it, \<^verbatim>\<open>Prompt()\<close> gives a new raw answer \<open>a'\<close> and
  \<^verbatim>\<open>Validate\<close> then accepts, the calls made are exactly: \<^verbatim>\<open>Validate(cv)\<close>, one
  \<^verbatim>\<open>Error()\<close>, one more \<^verbatim>\<open>Prompt()\<close>, \<^verbatim>\<open>Validate(cv)\<close> again on the same converted
  answer, \<^verbatim>\<open>Cleanup(a')\<close> and \<^verbatim>\<open>WriteAnswer\<close> of \<open>cv\<close>. The new raw answer \<open>a'\<close> is
  never converted: the value validated the second time and bound is the one converted
  before. Whatever the number of retries, every call of the validation phase is a
  \<^verbatim>\<open>Validate\<close> of \<open>cv\<close>, an \<^verbatim>\<open>Error()\<close> or a \<^verbatim>\<open>Prompt()\<close>, never a \<^verbatim>\<open>Convert\<close>.
\<close>

theorem validate_retry_keeps_converted:
  assumes q: "Prompt q = Some p" "Validate q = Some v"
    and p1: "call_Prompt p s = ((a0, None), s1)"
    and cp: "convert_phase (Suc (Suc n)) p q a0 s1 = (Next (a, cv), s2)"
    and v1: "v cv (world s2) = (Some invalid, w3)"
    and e1: "Prompt_Error p invalid w3 = (None, w4)"
    and p2: "Prompt_Prompt p w4 = ((a', None), w5)"
    and v2: "v cv w5 = (None, w6)"
    and cl: "Prompt_Cleanup p a' w6 = (rc, w7)"
    and wr: "W t (Name q) cv w7 = (rw, w8)"
  shows "ask_question (Suc (Suc n)) W t (Some q) s =
     (flow_of_write rw,
      \<lparr>world = w8,
       calls = calls s2 @ [ValidateCall cv (Some invalid), ErrorCall invalid None, PromptCall a' None,
                           ValidateCall cv None, CleanupCall a' rc, WriteAnswerCall t (Name q) cv rw]\<rparr>)
     \<and> (\<forall>m r s'. validate_phase m p q a cv s2 = (r, s') \<longrightarrow>
           (\<forall>c \<in> set (made s2 s'). validate_loop_call cv c))"
proof
  show "ask_question (Suc (Suc n)) W t (Some q) s =
     (flow_of_write rw,
      \<lparr>world = w8,
       calls = calls s2 @ [ValidateCall cv (Some invalid), ErrorCall invalid None, PromptCall a' None,
                           ValidateCall cv None, CleanupCall a' rc, WriteAnswerCall t (Name q) cv rw]\<rparr>)"
    using assms
    by (simp add: ask_question_def validate_phase_def cleanup_and_write_def flow_of_write_def
        call_Validate_def call_Error_def call_Prompt_def call_Cleanup_def call_WriteAnswer_def
        split: option.splits)
  show "\<forall>m r s'. validate_phase m p q a cv s2 = (r, s') \<longrightarrow>
           (\<forall>c \<in> set (made s2 s'). validate_loop_call cv c)"
    by (intro allI impI) (rule validate_phase_calls)
qed

theorem validate_retry_keeps_converted_witness:
  "ask_question (Suc (Suc 0)) write_ok () (second_thoughts_question ''age'') start =
     (Next (),
      \<lparr>world = 2,
       calls = [PromptCall 0 None, ConvertCall 0 10 None,
                ValidateCall 10 (Some (errors_New ''invalid'')), ErrorCall (errors_New ''invalid'') None,
                PromptCall 1 None, ValidateCall 10 None, CleanupCall 1 None,
                WriteAnswerCall () ''age'' 10 None]\<rparr>)"
proof -
  let ?q = "\<lparr>Name = ''age'', Prompt = Some counting_prompt,
             Validate = Some until_second_answer, Convert = Some add_ten\<rparr>"
  let ?s1 = "\<lparr>world = 1, calls = [PromptCall 0 None]\<rparr> :: (unit, nat, unit, nat) state"
  let ?s2 = "\<lparr>world = 1, calls = [PromptCall 0 None, ConvertCall 0 10 None]\<rparr> :: (unit, nat, unit, nat) state"
  have q: "second_thoughts_question ''age'' = Some ?q" by (simp add: second_thoughts_question_def)
  have h1: "Prompt ?q = Some counting_prompt" by simp
  have h2: "Validate ?q = Some until_second_answer" by simp
  have p1: "call_Prompt counting_prompt start = ((0, None), ?s1)"
    by (simp add: call_Prompt_def counting_prompt_def start_def)
  have cp: "convert_phase (Suc (Suc 0)) counting_prompt ?q 0 ?s1 = (Next (0, 10), ?s2)"
    by (simp add: convert_phase_def call_Convert_def add_ten_def)
  have v1: "until_second_answer 10 (world ?s2) = (Some (errors_New ''invalid''), 1)"
    by (simp add: until_second_answer_def)
  have e1: "Prompt_Error counting_prompt (errors_New ''invalid'') 1 = (None, 1)"
    by (simp add: counting_prompt_def)
  have p2: "Prompt_Prompt counting_prompt 1 = ((1, None), 2)"
    by (simp add: counting_prompt_def)
  have v2: "until_second_answer 10 2 = (None, 2)" by (simp add: until_second_answer_def)
  have cl: "Prompt_Cleanup counting_prompt 1 2 = (None, 2)" by (simp add: counting_prompt_def)
  have wr: "write_ok () (Name ?q) 10 2 = (None, 2)" by (simp add: write_ok_def)
  from validate_retry_keeps_converted[where W = write_ok and t = "()" and v = until_second_answer,
      OF h1 h2 p1 cp v1 e1 p2 v2 cl wr]
  show ?thesis by (simp add: q flow_of_write_def)
qed

section \<open>Two failed conversions\<close>

text \<open>
  C4, amended. Take a question with a converter. If \<^verbatim>\<open>Convert\<close> rejects the first two
  raw answers and accepts the third, with every \<^verbatim>\<open>Prompt()\<close> and \<^verbatim>\<open>Error()\<close>
  succeeding, and if the question has no validator or its validator accepts the
  converted answer at its first check, then before the answer is bound \<^verbatim>\<open>Prompt()\<close> is
  called exactly three times and \<^verbatim>\<open>Error()\<close> exactly twice, and each \<^verbatim>\<open>Convert\<close> call
  is applied to the raw answer of the \<^verbatim>\<open>Prompt()\<close> call just before it.
\<close>

theorem convert_retries_twice:
  assumes q: "Prompt q = Some p" "Convert q = Some c"
    and p1: "Prompt_Prompt p (world s) = ((a0, None), w1)"
    and c1: "c a0 w1 = ((x0, Some i0), w2)"
    and e1: "Prompt_Error p i0 w2 = (None, w3)"
    and p2: "Prompt_Prompt p w3 = ((a1, None), w4)"
    and c2: "c a1 w4 = ((x1, Some i1), w5)"
    and e2: "Prompt_Error p i1 w5 = (None, w6)"
    and p3: "Prompt_Prompt p w6 = ((a2, None), w7)"
    and c3: "c a2 w7 = ((cv, None), w8)"
    and va: "case Validate q of None \<Rightarrow> w9 = w8 | Some v \<Rightarrow> v cv w8 = (None, w9)"
    and cl: "Prompt_Cleanup p a2 w9 = (rc, w10)"
    and wr: "W t (Name q) cv w10 = (rw, w11)"
  shows "\<exists>s'. ask_question (Suc (Suc (Suc n))) W t (Some q) s = (flow_of_write rw, s')
     \<and> world s' = w11
     \<and> made s s' =
         [PromptCall a0 None, ConvertCall a0 x0 (Some i0), ErrorCall i0 None,
          PromptCall a1 None, ConvertCall a1 x1 (Some i1), ErrorCall i1 None,
          PromptCall a2 None, ConvertCall a2 cv None]
         @ (case Validate q of None \<Rightarrow> [] | Some v \<Rightarrow> [ValidateCall cv None])
         @ [CleanupCall a2 rc, WriteAnswerCall t (Name q) cv rw]
     \<and> length (filter is_PromptCall (made s s')) = 3
     \<and> length (filter is_ErrorCall (made s s')) = 2"
proof (cases "Validate q")
  case None
  with assms show ?thesis
    by (simp add: ask_question_def convert_phase_def validate_phase_def cleanup_and_write_def
        flow_of_write_def made_def
        call_Convert_def call_Error_def call_Prompt_def call_Cleanup_def call_WriteAnswer_def
        split: option.splits)
next
  case (Some v)
  with assms show ?thesis
    by (simp add: ask_question_def convert_phase_def validate_phase_def cleanup_and_write_def
        flow_of_write_def made_def
        call_Convert_def call_Validate_def call_Error_def call_Prompt_def call_Cleanup_def call_WriteAnswer_def
        split: option.splits)
qed

theorem convert_retries_twice_witness:
  "\<exists>s'. ask_question (Suc (Suc (Suc 0))) write_ok () (digits_question ''age'') start = (Next (), s')
     \<and> world s' = 3
     \<and> made start s' =
         [PromptCall 0 None, ConvertCall 0 0 (Some (errors_New ''not a number'')),
          ErrorCall (errors_New ''not a number'') None,
          PromptCall 1 None, ConvertCall 1 0 (Some (errors_New ''not a number'')),
          ErrorCall (errors_New ''not a number'') None,
          PromptCall 2 None, ConvertCall 2 12 None,
          CleanupCall 2 None, WriteAnswerCall () ''age'' 12 None]
     \<and> length (filter is_PromptCall (made start s')) = 3
     \<and> length (filter is_ErrorCall (made start s')) = 2"
proof -
  let ?q = "\<lparr>Name = ''age'', Prompt = Some counting_prompt, Validate = None, Convert = Some from_two_on\<rparr>"
  have q: "digits_question ''age'' = Some ?q" by (simp add: digits_question_def)
  have h1: "Prompt ?q = Some counting_prompt" by simp
  have h2: "Convert ?q = Some from_two_on" by simp
  have p1: "Prompt_Prompt counting_prompt (world start) = ((0, None), 1)"
    by (simp add: counting_prompt_def start_def)
  have c1: "from_two_on 0 1 = ((0, Some (errors_New ''not a number'')), 1)"
    by (simp add: from_two_on_def)
  have e1: "Prompt_Error counting_prompt (errors_New ''not a number'') 1 = (None, 1)"
    by (simp add: counting_prompt_def)
  have p2: "Prompt_Prompt counting_prompt 1 = ((1, None), 2)"
    by (simp add: counting_prompt_def)
  have c2: "from_two_on 1 2 = ((0, Some (errors_New ''not a number'')), 2)"
    by (simp add: from_two_on_def)
  have e2: "Prompt_Error counting_prompt (errors_New ''not a number'') 2 = (None, 2)"
    by (simp add: counting_prompt_def)
  have p3: "Prompt_Prompt counting_prompt 2 = ((2, None), 3)"
    by (simp add: counting_prompt_def)
  have c3: "from_two_on 2 3 = ((12, None), 3)"
    by (simp add: from_two_on_def)
  have va: "case Validate ?q of None \<Rightarrow> (3::nat) = 3 | Some v \<Rightarrow> v 12 3 = (None, 3)" by simp
  have cl: "Prompt_Cleanup counting_prompt 2 3 = (None, 3)" by (simp add: counting_prompt_def)
  have wr: "write_ok () (Name ?q) 12 3 = (None, 3)" by (simp add: write_ok_def)
  from convert_retries_twice[where W = write_ok and t = "()" and c = from_two_on and n = 0,
      OF h1 h2 p1 c1 e1 p2 c2 e2 p3 c3 va cl wr]
  show ?thesis by (simp add: q flow_of_write_def)
qed

text \<open>
  C4 without the condition on the validator does not hold: the validation loop
  of lines 84 to 97 calls \<^verbatim>\<open>Error()\<close> and \<^verbatim>\<open>Prompt()\<close> too. Here \<^verbatim>\<open>Convert\<close> rejects
  the answers 0 and 1 and accepts 2, every \<^verbatim>\<open>Prompt()\<close> and \<^verbatim>\<open>Error()\<close> succeeds, and
  the validator rejects the converted answer once: before the answer is bound
  \<^verbatim>\<open>Prompt()\<close> has been called four times and \<^verbatim>\<open>Error()\<close> three times.
\<close>

theorem convert_retries_twice_counterexample:
  "ask_question (Suc (Suc (Suc 0))) write_ok () (fussy_question ''age'') start =
     (Next (),
      \<lparr>world = 4,
       calls = [PromptCall 0 None, ConvertCall 0 0 (Some (errors_New ''not a number'')),
                ErrorCall (errors_New ''not a number'') None,
                PromptCall 1 None, ConvertCall 1 0 (Some (errors_New ''not a number'')),
                ErrorCall (errors_New ''not a number'') None,
                PromptCall 2 None, ConvertCall 2 12 None,
                ValidateCall 12 (Some (errors_New ''invalid'')), ErrorCall (errors_New ''invalid'') None,
                PromptCall 3 None, ValidateCall 12 None,
                CleanupCall 3 None, WriteAnswerCall () ''age'' 12 None]\<rparr>)
   \<and> length (filter is_PromptCall
         (made start (snd (ask_question (Suc (Suc (Suc 0))) write_ok () (fussy_question ''age'') start)))) = 4
   \<and> length (filter is_ErrorCall
         (made start (snd (ask_question (Suc (Suc (Suc 0))) write_ok () (fussy_question ''age'') start)))) = 3"
  by (simp add: run_defs fussy_question_def counting_prompt_def from_two_on_def
      until_fourth_answer_def write_ok_def start_def)

section \<open>\<^verbatim>\<open>AskOne\<close> binds under the empty name\<close>

text \<open>
  C10. The question \<^verbatim>\<open>AskOne\<close> builds has the zero value of \<^verbatim>\<open>Name\<close>. So every
  \<^verbatim>\<open>WriteAnswer\<close> call that \<^verbatim>\<open>AskOne\<close> makes, whatever its arguments and the bound on
  the loops, binds under the empty string.
\<close>

theorem AskOne_binds_empty_name:
  "\<forall>c \<in> set (made s (snd (AskOne n W p t v cnv s))). \<forall>name. write_name c = Some name \<longrightarrow> name = []"
proof (intro ballI allI impI)
  fix c name
  assume c: "c \<in> set (made s (snd (AskOne n W p t v cnv s)))" and w: "write_name c = Some name"
  let ?q = "\<lparr>Name = [], Prompt = p, Validate = v, Convert = cnv\<rparr>"
  show "name = []"
  proof (cases t)
    case None
    with c show ?thesis by (simp add: AskOne_state Ask_def)
  next
    case (Some r)
    have "snd (Ask n W [Some ?q] (Some r) s) = snd (ask_question n W r (Some ?q) s)"
    proof (cases "ask_question n W r (Some ?q) s")
      case (Pair fl s')
      then show ?thesis by (cases fl) (simp_all add: Ask_def)
    qed
    with c Some have "c \<in> set (made s (snd (ask_question n W r (Some ?q) s)))"
      by (simp add: AskOne_state)
    from ask_question_write_name[OF this w] show ?thesis by simp
  qed
qed

theorem AskOne_binds_empty_name_witness:
  "WriteAnswerCall () [] 0 None
     \<in> set (made start (snd (AskOne (Suc 0) write_ok (Some counting_prompt) (Some ()) None None start)))
   \<and> write_name (WriteAnswerCall () [] (0::nat) (None :: unit error option)) = Some []"
proof -
  have m: "WriteAnswerCall () [] 0 None
     \<in> set (made start (snd (AskOne (Suc 0) write_ok (Some counting_prompt) (Some ()) None None start)))"
    by (simp add: AskOne_def Ask_def run_defs counting_prompt_def write_ok_def start_def)
  from AskOne_binds_empty_name[rule_format, OF m, of "[]"] m show ?thesis by simp
qed

section \<open>A question without a converter\<close>

text \<open>
  C7. For a question with no converter, whatever the bound on the loops and however
  many times the validation loop asks again, no \<^verbatim>\<open>Convert\<close> call is made, and every
  value handed to \<^verbatim>\<open>Validate\<close> or to \<^verbatim>\<open>WriteAnswer\<close> is the raw value returned by
  the question's first \<^verbatim>\<open>Prompt()\<close> call. (The raw values of the later \<^verbatim>\<open>Prompt()\<close> calls
  of a validation retry go to \<^verbatim>\<open>Cleanup\<close> only.)
\<close>

theorem no_converter_raw_value:
  assumes p: "Prompt q = Some p" and c: "Convert q = None"
  shows "\<forall>c \<in> set (made s (snd (ask_question n W t (Some q) s))).
           \<not> is_ConvertCall c
         \<and> (\<forall>x. value_used c = Some x \<longrightarrow> x = fst (fst (Prompt_Prompt p (world s))))"
proof
  fix k
  assume k: "k \<in> set (made s (snd (ask_question n W t (Some q) s)))"
  obtain r s' where run: "ask_question n W t (Some q) s = (r, s')" by (metis prod.exhaust)
  from ask_question_shape[OF run p] obtain a0 e0 s1 evs1 cv evs2 fin where
    c1: "call_Prompt p s = ((a0, e0), s1)"
    and m1: "made s s' = PromptCall a0 e0 # evs1 @ evs2 @ fin"
    and cn: "Convert q = None \<longrightarrow> evs1 = [] \<and> cv = a0"
    and e2': "\<forall>c \<in> set evs2. validate_loop_call cv c"
    and fin': "fin = [] \<or> (\<exists>a' rc rw. fin = [CleanupCall a' rc, WriteAnswerCall t (Name q) cv rw])"
    by (elim exE conjE) (rule that)
  from cn c have cv: "evs1 = []" "cv = a0" by simp_all
  from m1 cv have m: "made s s' = PromptCall a0 e0 # evs2 @ fin" by simp
  from e2' cv have e2: "\<forall>c \<in> set evs2. validate_loop_call a0 c" by simp
  from fin' cv have fin: "fin = [] \<or> (\<exists>a' rc rw. fin = [CleanupCall a' rc, WriteAnswerCall t (Name q) a0 rw])"
    by simp
  from c1 have a0: "a0 = fst (fst (Prompt_Prompt p (world s)))"
    by (auto simp: call_Prompt_def split: prod.splits)
  from k run m have "k = PromptCall a0 e0 \<or> k \<in> set evs2 \<or> k \<in> set fin" by auto
  then show "\<not> is_ConvertCall k
         \<and> (\<forall>x. value_used k = Some x \<longrightarrow> x = fst (fst (Prompt_Prompt p (world s))))"
  proof (elim disjE)
    assume "k = PromptCall a0 e0" then show ?thesis by simp
  next
    assume "k \<in> set evs2"
    with e2 have v: "validate_loop_call a0 k" by simp
    from validate_loop_call_kind[OF v] validate_loop_call_uses[OF v] a0 show ?thesis by auto
  next
    assume "k \<in> set fin" with fin a0 show ?thesis by auto
  qed
qed

theorem no_converter_raw_value_witness:
  "made start (snd (ask_question (Suc (Suc 0)) write_ok () (hesitant_question ''age'') start)) =
     [PromptCall 0 None, ValidateCall 0 (Some (errors_New ''invalid'')),
      ErrorCall (errors_New ''invalid'') None, PromptCall 1 None, ValidateCall 0 None,
      CleanupCall 1 None, WriteAnswerCall () ''age'' 0 None]
   \<and> value_used (WriteAnswerCall () ''age'' (0::nat) (None :: unit error option))
       = Some (fst (fst (Prompt_Prompt counting_prompt (world start))))"
proof -
  let ?q = "\<lparr>Name = ''age'', Prompt = Some counting_prompt,
             Validate = Some until_second_answer, Convert = None\<rparr>"
  have q: "hesitant_question ''age'' = Some ?q" by (simp add: hesitant_question_def)
  have m: "made start (snd (ask_question (Suc (Suc 0)) write_ok () (Some ?q) start)) =
     [PromptCall 0 None, ValidateCall 0 (Some (errors_New ''invalid'')),
      ErrorCall (errors_New ''invalid'') None, PromptCall 1 None, ValidateCall 0 None,
      CleanupCall 1 None, WriteAnswerCall () ''age'' 0 None]"
    by (simp add: run_defs counting_prompt_def until_second_answer_def write_ok_def start_def)
  have h1: "Prompt ?q = Some counting_prompt" by simp
  have h2: "Convert ?q = None" by simp
  have k: "WriteAnswerCall () ''age'' 0 None
             \<in> set (made start (snd (ask_question (Suc (Suc 0)) write_ok () (Some ?q) start)))"
    by (simp add: m)
  have u: "value_used (WriteAnswerCall () ''age'' (0::nat) (None :: unit error option)) = Some 0" by simp
  from no_converter_raw_value[OF h1 h2, rule_format, OF k, THEN conjunct2, rule_format, OF u]
  have "0 = fst (fst (Prompt_Prompt counting_prompt (world start)))" .
  with m q show ?thesis by simp
qed

section \<open>\<^verbatim>\<open>Cleanup\<close> is called once and its error is dropped\<close>

text \<open>
  C8. Take a question whose first \<^verbatim>\<open>Prompt()\<close> succeeded and whose two retry loops
  have accepted a value: the conversion phase fell through with the converted answer
  \<open>cv\<close> and the validation phase fell through with the raw answer \<open>a'\<close>. Then the log
  of the question has exactly one \<^verbatim>\<open>Cleanup\<close> call, made after every call of the two
  loops and just before \<^verbatim>\<open>WriteAnswer\<close>; its argument \<open>a'\<close> is the raw value of the
  last \<^verbatim>\<open>Prompt()\<close> call of the log, not \<open>cv\<close>. The question ends as \<^verbatim>\<open>WriteAnswer\<close>
  ends (\<open>flow_of_write rw\<close>), whatever \<^verbatim>\<open>Cleanup\<close> returned: with a prompt that differs
  only in the error its \<^verbatim>\<open>Cleanup\<close> returns, the question ends the same way in the
  same world, the log differing in that returned error only.
\<close>

theorem cleanup_once_result_dropped:
  assumes q: "Prompt q = Some p"
    and p1: "call_Prompt p s = ((a0, None), s1)"
    and cp: "convert_phase n p q a0 s1 = (Next (a, cv), s2)"
    and vp: "validate_phase n p q a cv s2 = (Next a', s3)"
    and cl: "Prompt_Cleanup p a' (world s3) = (rc, w4)"
    and wr: "W t (Name q) cv w4 = (rw, w5)"
  shows "ask_question n W t (Some q) s =
           (flow_of_write rw,
            \<lparr>world = w5, calls = calls s3 @ [CleanupCall a' rc, WriteAnswerCall t (Name q) cv rw]\<rparr>)
       \<and> filter is_CleanupCall (made s (snd (ask_question n W t (Some q) s))) = [CleanupCall a' rc]
       \<and> last_raw None (made s s3) = Some a'
       \<and> (\<forall>f. ask_question n W t (Some (q\<lparr>Prompt := Some (cleanup_returning f p)\<rparr>)) s =
                 (flow_of_write rw,
                  \<lparr>world = w5,
                   calls = calls s3 @ [CleanupCall a' (f a' (world s3)), WriteAnswerCall t (Name q) cv rw]\<rparr>))"
proof (intro conjI allI)
  show run: "ask_question n W t (Some q) s =
           (flow_of_write rw,
            \<lparr>world = w5, calls = calls s3 @ [CleanupCall a' rc, WriteAnswerCall t (Name q) cv rw]\<rparr>)"
    by (simp add: ask_question_def q p1 cp vp cleanup_and_write_def call_Cleanup_def cl
        call_WriteAnswer_def wr flow_of_write_def split: option.splits)
  from convert_phase_log[OF cp] obtain evs1 where
    e1: "calls s2 = calls s1 @ evs1" "\<forall>c \<in> set evs1. convert_loop_call c"
        "last_raw (Some a0) evs1 = Some a"
    by auto
  from validate_phase_log[OF vp] obtain evs2 where
    e2: "calls s3 = calls s2 @ evs2" "\<forall>c \<in> set evs2. validate_loop_call cv c"
        "last_raw (Some a) evs2 = Some a'"
    by auto
  from call_Prompt_calls[OF p1] e1(1) e2(1) have l: "calls s3 = calls s @ PromptCall a0 None # evs1 @ evs2"
    by simp
  then have m: "made s s3 = PromptCall a0 None # evs1 @ evs2"
    by (simp add: made_append)
  have n: "filter is_CleanupCall evs1 = []" "filter is_CleanupCall evs2 = []"
    using e1(2) e2(2) by (auto simp: filter_empty_conv dest: convert_loop_call_kind validate_loop_call_kind)
  have "made s (snd (ask_question n W t (Some q) s))
          = (PromptCall a0 None # evs1 @ evs2) @ [CleanupCall a' rc, WriteAnswerCall t (Name q) cv rw]"
    unfolding run by (rule made_append) (simp add: l)
  then show "filter is_CleanupCall (made s (snd (ask_question n W t (Some q) s))) = [CleanupCall a' rc]"
    using n by simp
  show "last_raw None (made s s3) = Some a'"
    by (simp add: m last_raw_append e1(3) e2(3))
next
  fix f
  let ?p = "cleanup_returning f p"
  let ?q = "q\<lparr>Prompt := Some ?p\<rparr>"
  have cl': "Prompt_Cleanup ?p a' (world s3) = (f a' (world s3), w4)"
    by (simp add: cleanup_returning_def cl)
  show "ask_question n W t (Some ?q) s =
          (flow_of_write rw,
           \<lparr>world = w5,
            calls = calls s3 @ [CleanupCall a' (f a' (world s3)), WriteAnswerCall t (Name q) cv rw]\<rparr>)"
    by (simp add: ask_question_def p1 phases_cleanup_returning cp vp cleanup_and_write_def
        call_Cleanup_def cl' call_WriteAnswer_def wr flow_of_write_def split: option.splits)
qed

theorem cleanup_once_result_dropped_witness:
  "ask_question (Suc (Suc 0)) write_ok ()
     (Some \<lparr>Name = ''age'',
            Prompt = Some (cleanup_returning (\<lambda>x w. Some (errors_New ''terminal closed'')) counting_prompt),
            Validate = Some until_second_answer, Convert = Some add_ten\<rparr>) start =
     (Next (),
      \<lparr>world = 2,
       calls = [PromptCall 0 None, ConvertCall 0 10 None,
                ValidateCall 10 (Some (errors_New ''invalid'')), ErrorCall (errors_New ''invalid'') None,
                PromptCall 1 None, ValidateCall 10 None,
                CleanupCall 1 (Some (errors_New ''terminal closed'')),
                WriteAnswerCall () ''age'' 10 None]\<rparr>)"
proof -
  let ?q = "\<lparr>Name = ''age'', Prompt = Some counting_prompt,
             Validate = Some until_second_answer, Convert = Some add_ten\<rparr>"
  let ?s1 = "\<lparr>world = 1, calls = [PromptCall 0 None]\<rparr> :: (unit, nat, unit, nat) state"
  let ?s2 = "\<lparr>world = 1, calls = [PromptCall 0 None, ConvertCall 0 10 None]\<rparr> :: (unit, nat, unit, nat) state"
  let ?s3 = "\<lparr>world = 2, calls = [PromptCall 0 None, ConvertCall 0 10 None,
                ValidateCall 10 (Some (errors_New ''invalid'')), ErrorCall (errors_New ''invalid'') None,
                PromptCall 1 None, ValidateCall 10 None]\<rparr> :: (unit, nat, unit, nat) state"
  have h1: "Prompt ?q = Some counting_prompt" by simp
  have p1: "call_Prompt counting_prompt start = ((0, None), ?s1)"
    by (simp add: call_Prompt_def counting_prompt_def start_def)
  have cp: "convert_phase (Suc (Suc 0)) counting_prompt ?q 0 ?s1 = (Next (0, 10), ?s2)"
    by (simp add: convert_phase_def call_Convert_def add_ten_def)
  have vp: "validate_phase (Suc (Suc 0)) counting_prompt ?q 0 10 ?s2 = (Next 1, ?s3)"
    by (simp add: validate_phase_def call_Validate_def call_Error_def call_Prompt_def
        until_second_answer_def counting_prompt_def)
  have cl: "Prompt_Cleanup counting_prompt 1 (world ?s3) = (None, 2)" by (simp add: counting_prompt_def)
  have wr: "write_ok () (Name ?q) 10 2 = (None, 2)" by (simp add: write_ok_def)
  from cleanup_once_result_dropped[where W = write_ok and t = "()", OF h1 p1 cp vp cl wr,
      THEN conjunct2, THEN conjunct2, THEN conjunct2, rule_format,
      of "\<lambda>x w. Some (errors_New ''terminal closed'')"]
  show ?thesis by (simp add: flow_of_write_def)
qed

section \<open>\<^verbatim>\<open>Ask\<close> need not return\<close>

text \<open>
  C9. Take a question whose validator is a pure function rejecting the converted answer
  \<open>cv\<close> that the conversion phase leaves (it returns the same error in every world and
  does not change the world), and whose \<^verbatim>\<open>Prompt()\<close> and \<^verbatim>\<open>Error()\<close> never fail. Then
  \<^verbatim>\<open>Ask\<close> on a slice starting with this question does not return: whatever bound \<open>n\<close>
  the loops are given, the run ends by exhausting it; and once the bound lets the
  conversion phase end, the run has called \<^verbatim>\<open>Validate\<close> \<open>n\<close> times, each time on the
  same \<open>cv\<close>.
\<close>

theorem validation_never_accepts:
  assumes q: "Prompt q = Some p" "Validate q = Some v"
    and rejects: "\<forall>w. v cv w = (Some invalid, w)"
    and prompt_ok: "\<forall>w. snd (fst (Prompt_Prompt p w)) = None"
    and error_ok: "\<forall>e w. fst (Prompt_Error p e w) = None"
    and p1: "call_Prompt p s = ((a0, None), s1)"
    and cp: "convert_phase m p q a0 s1 = (Next (a, cv), s2)"
  shows "(\<forall>n. fst (Ask n W (Some q # rest) (Some t) s) = OutOfFuel)
       \<and> (\<forall>n \<ge> m. filter is_ValidateCall (made s2 (snd (Ask n W (Some q # rest) (Some t) s)))
                     = replicate n (ValidateCall cv (Some invalid)))"
proof (intro conjI allI impI)
  fix n
  obtain r2 s2' where cpn: "convert_phase n p q a0 s1 = (r2, s2')" by (metis prod.exhaust)
  have alt: "r2 = Exit OutOfFuel \<or> (r2 = Next (a, cv) \<and> s2' = s2)"
  proof (cases "Convert q")
    case None
    with cp cpn show ?thesis by (auto simp: convert_phase_def)
  next
    case (Some c)
    show ?thesis
    proof (cases "r2 = Exit OutOfFuel")
      case True
      then show ?thesis by simp
    next
      case False
      from cpn Some have l: "convert_loop n p c a0 s1 = (r2, s2')" by (simp add: convert_phase_def)
      from cp Some have lm: "convert_loop m p c a0 s1 = (Next (a, cv), s2)" by (simp add: convert_phase_def)
      show ?thesis
      proof (cases "n \<le> m")
        case True
        from convert_loop_fuel[OF l False, of "m - n"] True lm show ?thesis by simp
      next
        case False
        then have "m \<le> n" by simp
        from convert_loop_fuel[OF lm, of "n - m"] this l show ?thesis by simp
      qed
    qed
  qed
  show "fst (Ask n W (Some q # rest) (Some t) s) = OutOfFuel"
  proof (cases "r2 = Exit OutOfFuel")
    case True
    then show ?thesis by (simp add: Ask_def ask_question_def q p1 cpn)
  next
    case False
    with alt have r: "r2 = Next (a, cv)" "s2' = s2" by simp_all
    from validate_loop_rejecting[where v = v and cv = cv, OF rejects prompt_ok error_ok, of n a s2] obtain s' where
      "validate_loop n p v a cv s2 = (Exit OutOfFuel, s')" by blast
    then show ?thesis
      by (simp add: Ask_def ask_question_def q p1 cpn r validate_phase_def)
  qed
next
  fix n
  assume mn: "m \<le> n"
  have cpn: "convert_phase n p q a0 s1 = (Next (a, cv), s2)"
  proof (cases "Convert q")
    case None
    with cp show ?thesis by (auto simp: convert_phase_def)
  next
    case (Some c)
    from cp Some have lm: "convert_loop m p c a0 s1 = (Next (a, cv), s2)" by (simp add: convert_phase_def)
    from convert_loop_fuel[OF lm, of "n - m"] mn Some show ?thesis by (simp add: convert_phase_def)
  qed
  from validate_loop_rejecting[where v = v and cv = cv, OF rejects prompt_ok error_ok, of n a s2] obtain s' evs where
    v: "validate_loop n p v a cv s2 = (Exit OutOfFuel, s')" "calls s' = calls s2 @ evs"
       "filter is_ValidateCall evs = replicate n (ValidateCall cv (Some invalid))"
    by blast
  have "snd (Ask n W (Some q # rest) (Some t) s) = s'"
    by (simp add: Ask_def ask_question_def q p1 cpn validate_phase_def v(1))
  with v(3) made_append[OF v(2)]
  show "filter is_ValidateCall (made s2 (snd (Ask n W (Some q # rest) (Some t) s)))
          = replicate n (ValidateCall cv (Some invalid))"
    by simp
qed

theorem validation_never_accepts_witness:
  "\<forall>n. fst (Ask n write_ok [stubborn_question ''age'', plain_question ''name''] (Some ()) start) = OutOfFuel"
proof -
  let ?q = "\<lparr>Name = ''age'', Prompt = Some counting_prompt, Validate = Some never_valid, Convert = None\<rparr>"
  let ?s1 = "\<lparr>world = 1, calls = [PromptCall 0 None]\<rparr> :: (unit, nat, unit, nat) state"
  have q: "stubborn_question ''age'' = Some ?q" by (simp add: stubborn_question_def)
  have h1: "Prompt ?q = Some counting_prompt" by simp
  have h2: "Validate ?q = Some never_valid" by simp
  have rejects: "\<forall>w. never_valid 0 w = (Some (errors_New ''invalid''), w)" by (simp add: never_valid_def)
  have prompt_ok: "\<forall>w. snd (fst (Prompt_Prompt counting_prompt w)) = None" by (simp add: counting_prompt_def)
  have error_ok: "\<forall>e w. fst (Prompt_Error counting_prompt e w) = None" by (simp add: counting_prompt_def)
  have p1: "call_Prompt counting_prompt start = ((0, None), ?s1)"
    by (simp add: call_Prompt_def counting_prompt_def start_def)
  have cp: "convert_phase 0 counting_prompt ?q 0 ?s1 = (Next (0, 0), ?s1)"
    by (simp add: convert_phase_def)
  from validation_never_accepts[where v = never_valid and cv = 0 and W = write_ok and t = "()"
      and rest = "[plain_question ''name'']", OF h1 h2 rejects prompt_ok error_ok p1 cp]
  show ?thesis by (simp add: q)
qed

end
